theory Spec2Isabelle
  imports Complex_Main "HOL-Library.Word" "HOL-Library.Monad_Syntax"
begin

unbundle bit_operations_syntax

section \<open>JavaScript numbers used by the exporters\<close>

text \<open>
  The repository is a browser instrument: \<^verbatim>\<open>rhythm.js\<close> (drum sequencer with a
  look-ahead scheduler) and \<^verbatim>\<open>recorder.js\<close> (loop recorder, WAV and MIDI export).
  Times, tempo and volume are JavaScript numbers; they are modelled as exact rationals.
  Audio samples are the elements of a \<^verbatim>\<open>Float32Array\<close>, which may also hold
  \<^verbatim>\<open>NaN\<close> and the infinities, so samples get a datatype of their own.
\<close>

type_synonym byte = "8 word"

datatype sample = NaN | PosInf | NegInf | Fin rat

text \<open>\<^verbatim>\<open>Math.min(1, x)\<close> and \<^verbatim>\<open>Math.max(-1, x)\<close>.\<close>

fun math_min1 :: "sample \<Rightarrow> sample" where
  "math_min1 NaN = NaN"
| "math_min1 PosInf = Fin 1"
| "math_min1 NegInf = NegInf"
| "math_min1 (Fin r) = Fin (min 1 r)"

fun math_max_neg1 :: "sample \<Rightarrow> sample" where
  "math_max_neg1 NaN = NaN"
| "math_max_neg1 PosInf = PosInf"
| "math_max_neg1 NegInf = Fin (- 1)"
| "math_max_neg1 (Fin r) = Fin (max (- 1) r)"

text \<open>\<^verbatim>\<open>s < 0\<close> and \<^verbatim>\<open>s * c\<close> for a positive constant \<open>c\<close>.\<close>

fun lt_zero :: "sample \<Rightarrow> bool" where
  "lt_zero NaN = False"
| "lt_zero PosInf = False"
| "lt_zero NegInf = True"
| "lt_zero (Fin r) = (r < 0)"

fun times_const :: "sample \<Rightarrow> rat \<Rightarrow> sample" where
  "times_const NaN c = NaN"
| "times_const PosInf c = PosInf"
| "times_const NegInf c = NegInf"
| "times_const (Fin r) c = Fin (r * c)"

text \<open>
  The integer conversion that the \<^verbatim>\<open>DataView\<close> setters apply to a number:
  \<^verbatim>\<open>NaN\<close> and the infinities become 0, anything else is truncated towards zero.
  The setter then keeps the low bits (\<open>word_of_int\<close>).
\<close>

definition js_trunc :: "rat \<Rightarrow> int" where
  "js_trunc r = (if 0 \<le> r then \<lfloor>r\<rfloor> else \<lceil>r\<rceil>)"

fun toInteger :: "sample \<Rightarrow> int" where
  "toInteger NaN = 0"
| "toInteger PosInf = 0"
| "toInteger NegInf = 0"
| "toInteger (Fin r) = js_trunc r"

text \<open>
  \<^verbatim>\<open>Math.round\<close>: the nearest integer, halves rounded up. Its argument is an exact
  rational here; where the source divides two doubles, a quotient that lies exactly on
  a half in the model can fall just below it in the browser and round one lower.
\<close>

definition math_round :: "rat \<Rightarrow> int" where
  "math_round x = \<lfloor>x + 1 / 2\<rfloor>"

text \<open>
  The bitwise operators first convert their operands to 32-bit signed integers
  (\<^verbatim>\<open>ToInt32\<close>); \<^verbatim>\<open>>>\<close> is the arithmetic shift.
\<close>

definition toInt32 :: "int \<Rightarrow> int" where
  "toInt32 v = (v + 2147483648) mod 4294967296 - 2147483648"

definition js_and :: "int \<Rightarrow> int \<Rightarrow> int" where
  "js_and a b = toInt32 a AND toInt32 b"

definition js_or :: "int \<Rightarrow> int \<Rightarrow> int" where
  "js_or a b = toInt32 a OR toInt32 b"

definition js_shr :: "int \<Rightarrow> nat \<Rightarrow> int" where
  "js_shr a n = drop_bit n (toInt32 a)"

section \<open>WAV export (\<^verbatim>\<open>audioBufferToWav\<close>)\<close>

text \<open>
  An \<^verbatim>\<open>AudioBuffer\<close> as the encoder reads it: the channel count, the sample rate
  and the per-channel sample arrays. \<^verbatim>\<open>getChannelData\<close> raises for a channel
  that does not exist; a raised exception is the value \<open>None\<close>.
\<close>

record audio_buffer =
  numberOfChannels :: nat
  sampleRate :: nat
  channelData :: "sample list list"

definition getChannelData :: "'a audio_buffer_scheme \<Rightarrow> nat \<Rightarrow> sample list option" where
  "getChannelData buffer i =
     (if i < numberOfChannels buffer \<and> i < length (channelData buffer)
      then Some (channelData buffer ! i) else None)"

text \<open>
  A \<^verbatim>\<open>DataView\<close> over an \<^verbatim>\<open>ArrayBuffer\<close> is the list of its bytes. Each setter
  raises \<^verbatim>\<open>RangeError\<close> when the write does not fit; the multi-byte setters are
  always called with \<^verbatim>\<open>littleEndian = true\<close>. A byte keeps the low eight bits of
  the integer stored in it (\<open>toUint8\<close>).
\<close>

definition toUint8 :: "int \<Rightarrow> byte" where
  "toUint8 v = word_of_int v"

definition setUint8 :: "byte list \<Rightarrow> nat \<Rightarrow> int \<Rightarrow> byte list option" where
  "setUint8 view off v =
     (if off + 1 \<le> length view then Some (view[off := toUint8 v]) else None)"

definition setUint16 :: "byte list \<Rightarrow> nat \<Rightarrow> int \<Rightarrow> byte list option" where
  "setUint16 view off v =
     (if off + 2 \<le> length view
      then Some (view[off := toUint8 v, off + 1 := toUint8 (v div 256)])
      else None)"

definition setUint32 :: "byte list \<Rightarrow> nat \<Rightarrow> int \<Rightarrow> byte list option" where
  "setUint32 view off v =
     (if off + 4 \<le> length view
      then Some (view[off := toUint8 v, off + 1 := toUint8 (v div 256),
                      off + 2 := toUint8 (v div 65536),
                      off + 3 := toUint8 (v div 16777216)])
      else None)"

definition setInt16 :: "byte list \<Rightarrow> nat \<Rightarrow> sample \<Rightarrow> byte list option" where
  "setInt16 view off x = setUint16 view off (toInteger x)"

fun writeString :: "byte list \<Rightarrow> nat \<Rightarrow> string \<Rightarrow> byte list option" where
  "writeString view off [] = Some view"
| "writeString view off (c # cs) =
     do { view' \<leftarrow> setUint8 view off (of_char c); writeString view' (off + 1) cs }"

text \<open>
  The stereo interleaving loop. The target is a fresh \<^verbatim>\<open>Float32Array\<close> of
  \<open>left.length + right.length\<close> zeros; a typed array ignores a write past its end
  and stores \<^verbatim>\<open>NaN\<close> for a missing element of \<open>right\<close>.
\<close>

definition sample_at :: "sample list \<Rightarrow> nat \<Rightarrow> sample" where
  "sample_at xs i = (if i < length xs then xs ! i else NaN)"

definition interleave_step :: "sample list \<Rightarrow> sample list \<Rightarrow> nat \<Rightarrow> sample list \<Rightarrow> sample list" where
  "interleave_step left right i acc = acc[i * 2 := left ! i, i * 2 + 1 := sample_at right i]"

definition interleave :: "sample list \<Rightarrow> sample list \<Rightarrow> sample list" where
  "interleave left right =
     fold (interleave_step left right) [0 ..< length left]
       (replicate (length left + length right) (Fin 0))"

text \<open>The body of the sample loop: clamp, scale asymmetrically, store as Int16.\<close>

definition clamp_sample :: "sample \<Rightarrow> sample" where
  "clamp_sample x = math_max_neg1 (math_min1 x)"

definition scale_sample :: "sample \<Rightarrow> sample" where
  "scale_sample s = (if lt_zero s then times_const s 32768 else times_const s 32767)"

fun write_samples :: "byte list \<Rightarrow> nat \<Rightarrow> sample list \<Rightarrow> byte list option" where
  "write_samples view offset [] = Some view"
| "write_samples view offset (x # xs) =
     do { view' \<leftarrow> setInt16 view offset (scale_sample (clamp_sample x));
          write_samples view' (offset + 2) xs }"

text \<open>
  The encoder in its three blocks: \<^verbatim>\<open>// Interleave channels\<close>,
  \<^verbatim>\<open>// WAV header\<close> (with the values of its fields as arguments) and
  \<^verbatim>\<open>// Write samples\<close> (the loop above).
\<close>

definition interleave_channels :: "'a audio_buffer_scheme \<Rightarrow> sample list option" where
  "interleave_channels buffer =
     (if numberOfChannels buffer = 2
      then do { left \<leftarrow> getChannelData buffer 0;
                right \<leftarrow> getChannelData buffer 1;
                Some (interleave left right) }
      else getChannelData buffer 0)"

definition write_header ::
  "byte list \<Rightarrow> int \<Rightarrow> int \<Rightarrow> int \<Rightarrow> int \<Rightarrow> int \<Rightarrow> int \<Rightarrow> int \<Rightarrow> int \<Rightarrow> byte list option" where
  "write_header view0 chunkSize format numChannels rate byteRate blockAlign bitsPerSample
       dataLength =
     do { view \<leftarrow> writeString view0 0 ''RIFF'';
          view \<leftarrow> setUint32 view 4 chunkSize;
          view \<leftarrow> writeString view 8 ''WAVE'';
          view \<leftarrow> writeString view 12 ''fmt '';
          view \<leftarrow> setUint32 view 16 16;
          view \<leftarrow> setUint16 view 20 format;
          view \<leftarrow> setUint16 view 22 numChannels;
          view \<leftarrow> setUint32 view 24 rate;
          view \<leftarrow> setUint32 view 28 byteRate;
          view \<leftarrow> setUint16 view 32 blockAlign;
          view \<leftarrow> setUint16 view 34 bitsPerSample;
          view \<leftarrow> writeString view 36 ''data'';
          setUint32 view 40 dataLength }"

definition audioBufferToWav :: "'a audio_buffer_scheme \<Rightarrow> byte list option" where
  "audioBufferToWav buffer =
     do { let numChannels = numberOfChannels buffer;
          let format = 1;
          let bitsPerSample = 16;
          interleaved \<leftarrow> interleave_channels buffer;
          let dataLength = length interleaved * (bitsPerSample div 8);
          let headerLength = 44;
          let view = replicate (headerLength + dataLength) 0;
          view \<leftarrow> write_header view (36 + int dataLength) format (int numChannels)
                    (int (sampleRate buffer))
                    (int (sampleRate buffer * numChannels * bitsPerSample div 8))
                    (int (numChannels * bitsPerSample div 8)) (int bitsPerSample)
                    (int dataLength);
          write_samples view 44 interleaved }"

section \<open>MIDI export (\<^verbatim>\<open>buildMidiFile\<close>)\<close>

text \<open>
  A logged event is \<^verbatim>\<open>{ time, type, ...data }\<close>. The callers of \<^verbatim>\<open>logEvent\<close>
  pass \<open>channel\<close>, \<open>midi\<close> and sometimes \<open>velocity\<close>; a property that is absent
  (\<^verbatim>\<open>undefined\<close>) is \<open>None\<close>.
\<close>

record event =
  time :: rat
  etype :: string
  channel :: "int option"
  midi :: "int option"
  velocity :: "int option"

text \<open>\<^verbatim>\<open>x || d\<close> on a numeric property: \<^verbatim>\<open>undefined\<close> and 0 are falsy.\<close>

definition or_default :: "int option \<Rightarrow> int \<Rightarrow> int" where
  "or_default x d = (case x of None \<Rightarrow> d | Some v \<Rightarrow> if v = 0 then d else v)"

text \<open>
  \<^verbatim>\<open>writeVarLen\<close>: the low seven bits first, then while the shifted value is
  positive another byte with the continuation bit is put in front.
\<close>

function writeVarLen_loop :: "int \<Rightarrow> int list \<Rightarrow> int list" where
  "writeVarLen_loop val bytes =
     (if val > 0
      then writeVarLen_loop (js_shr val 7) (js_or (js_and val 127) 128 # bytes)
      else bytes)"
  by pat_completeness auto

termination writeVarLen_loop
proof (relation "measure (\<lambda>(val, bytes). nat val)")
  show "wf (measure (\<lambda>(val, bytes). nat val))" by simp
next
  fix val :: int and bytes :: "int list"
  assume pos: "0 < val"
  have "(val + 2147483648) mod 4294967296 \<le> val + 2147483648"
    using pos by (intro zmod_le_nonneg_dividend) simp
  then have le: "toInt32 val \<le> val" by (simp add: toInt32_def)
  have "toInt32 val div 128 < val"
  proof (cases "0 < toInt32 val")
    case True
    then have "toInt32 val div 128 < toInt32 val" by (simp add: int_div_less_self)
    with le show ?thesis by simp
  next
    case False
    then have "toInt32 val div 128 \<le> 0"
      by (simp add: div_int_pos_iff not_less zdiv_mono1_neg div_nonpos_pos_le0)
    with pos show ?thesis by simp
  qed
  then show "((js_shr val 7, js_or (js_and val 127) 128 # bytes), (val, bytes))
               \<in> measure (\<lambda>(val, bytes). nat val)"
    using pos by (simp add: js_shr_def drop_bit_eq_div)
qed

declare writeVarLen_loop.simps [simp del]

definition writeVarLen :: "int \<Rightarrow> int list" where
  "writeVarLen val = writeVarLen_loop (js_shr val 7) [js_and val 127]"

text \<open>
  The body of \<^verbatim>\<open>sorted.forEach\<close>, with the two variables it updates
  (\<open>lastTick\<close> and \<open>trackData\<close>) passed along. An event without \<open>midi\<close> is skipped.
\<close>

fun track_loop :: "rat \<Rightarrow> event list \<Rightarrow> int \<Rightarrow> int list \<Rightarrow> int list" where
  "track_loop msPerTick [] lastTick trackData = trackData"
| "track_loop msPerTick (evt # rest) lastTick trackData =
     (case midi evt of
        None \<Rightarrow> track_loop msPerTick rest lastTick trackData
      | Some m \<Rightarrow>
          (let tick = math_round (time evt / msPerTick);
               delta = tick - lastTick;
               chan = or_default (channel evt) 1 - 1;
               noteDur = math_round (200 / msPerTick)
           in track_loop msPerTick rest tick
                (trackData @ writeVarLen delta
                   @ [js_or 144 chan, js_and m 127, js_and (or_default (velocity evt) 64) 127]
                   @ writeVarLen noteDur
                   @ [js_or 128 chan, js_and m 127, 0])))"

text \<open>
  \<^verbatim>\<open>buildMidiFile(events, durationMs)\<close> reads the tempo from the sequencer
  (\<^verbatim>\<open>Rhythm.getTempo()\<close>); here it is the first argument. The sort is the stable
  sort by \<open>time\<close>; the result is a \<^verbatim>\<open>Uint8Array\<close>, which keeps the low eight bits
  of every element.
\<close>

definition buildMidiFile :: "rat \<Rightarrow> event list \<Rightarrow> rat \<Rightarrow> byte list" where
  "buildMidiFile tempo events durationMs =
     (let ticksPerBeat = 480;
          msPerTick = (60000 / tempo) / 480;
          sorted = sort_key time events;
          trackData = track_loop msPerTick sorted 0 [] @ [0, 255, 47, 0];
          tempoMicro = math_round (60000000 / tempo);
          tempoBytes = [0, 255, 81, 3,
                        js_and (js_shr tempoMicro 16) 255,
                        js_and (js_shr tempoMicro 8) 255,
                        js_and tempoMicro 255];
          fullTrack = tempoBytes @ trackData;
          header = [77, 84, 104, 100, 0, 0, 0, 6, 0, 0, 0, 1,
                    js_and (js_shr ticksPerBeat 8) 255, js_and ticksPerBeat 255];
          len = int (length fullTrack);
          trackHeader = [77, 84, 114, 107,
                         js_and (js_shr len 24) 255, js_and (js_shr len 16) 255,
                         js_and (js_shr len 8) 255, js_and len 255]
      in map toUint8 (header @ trackHeader @ fullTrack))"

section \<open>The sequencer (\<^verbatim>\<open>rhythm.js\<close>)\<close>

subsection \<open>Pattern catalog\<close>

record pattern =
  steps :: nat
  timeSignature :: string
  kick :: "nat list"
  snare :: "nat list"
  hihat :: "nat list"
  ohihat :: "nat list"
  clap :: "nat list"
  rim :: "nat list"

definition PATTERNS :: "(string \<times> pattern) list" where
  "PATTERNS =
    [
     (''rock'', \<lparr>steps = 16, timeSignature = ''4/4'',
        kick = [1,0,0,0, 0,0,0,0, 1,0,0,0, 0,0,0,0],
        snare = [0,0,0,0, 1,0,0,0, 0,0,0,0, 1,0,0,0],
        hihat = [1,0,1,0, 1,0,1,0, 1,0,1,0, 1,0,1,0],
        ohihat = [0,0,0,0, 0,0,0,0, 0,0,0,0, 0,0,0,1],
        clap = [0,0,0,0, 0,0,0,0, 0,0,0,0, 0,0,0,0],
        rim = [0,0,0,0, 0,0,0,0, 0,0,0,0, 0,0,0,0]\<rparr>),
     (''16beat'', \<lparr>steps = 16, timeSignature = ''4/4'',
        kick = [1,0,0,0, 0,0,0,0, 1,0,1,0, 0,0,0,0],
        snare = [0,0,0,0, 1,0,0,0, 0,0,0,0, 1,0,0,0],
        hihat = [1,1,1,1, 1,1,1,1, 1,1,1,1, 1,1,1,1],
        ohihat = [0,0,0,0, 0,0,0,0, 0,0,0,0, 0,0,0,0],
        clap = [0,0,0,0, 0,0,0,0, 0,0,0,0, 0,0,0,0],
        rim = [0,0,0,0, 0,0,1,0, 0,0,0,0, 0,0,1,0]\<rparr>),
     (''waltz'', \<lparr>steps = 12, timeSignature = ''3/4'',
        kick = [1,0,0,0, 0,0,0,0, 0,0,0,0],
        snare = [0,0,0,0, 1,0,0,0, 1,0,0,0],
        hihat = [1,0,1,0, 1,0,1,0, 1,0,1,0],
        ohihat = [0,0,0,0, 0,0,0,0, 0,0,0,0],
        clap = [0,0,0,0, 0,0,0,0, 0,0,0,0],
        rim = [0,0,0,0, 0,0,0,0, 0,0,0,0]\<rparr>),
     (''bossa'', \<lparr>steps = 16, timeSignature = ''4/4'',
        kick = [1,0,0,0, 0,0,1,0, 0,0,1,0, 0,0,0,0],
        snare = [0,0,0,0, 0,0,0,0, 0,0,0,0, 0,0,0,0],
        hihat = [1,0,1,0, 1,0,1,0, 1,0,1,0, 1,0,1,0],
        ohihat = [0,0,0,0, 0,0,0,0, 0,0,0,0, 0,0,0,0],
        clap = [0,0,0,0, 0,0,0,0, 0,0,0,0, 0,0,0,0],
        rim = [0,0,0,1, 0,0,0,1, 0,0,0,1, 0,0,0,1]\<rparr>),
     (''samba'', \<lparr>steps = 16, timeSignature = ''4/4'',
        kick = [1,0,0,0, 0,0,1,0, 1,0,0,0, 0,0,1,0],
        snare = [0,0,0,0, 1,0,0,1, 0,0,0,0, 1,0,0,1],
        hihat = [1,1,1,1, 1,1,1,1, 1,1,1,1, 1,1,1,1],
        ohihat = [0,0,0,0, 0,0,0,0, 0,0,0,0, 0,0,0,0],
        clap = [0,0,0,0, 0,0,0,0, 0,0,0,0, 0,0,0,0],
        rim = [0,1,0,1, 0,0,0,1, 0,1,0,1, 0,0,0,1]\<rparr>),
     (''swing'', \<lparr>steps = 16, timeSignature = ''4/4'',
        kick = [1,0,0,0, 0,0,0,0, 1,0,0,0, 0,0,0,0],
        snare = [0,0,0,0, 1,0,0,0, 0,0,0,0, 1,0,0,0],
        hihat = [1,0,0,1, 0,0,1,0, 0,1,0,0, 1,0,0,1],
        ohihat = [0,0,0,0, 0,0,0,0, 0,0,0,0, 0,0,0,0],
        clap = [0,0,0,0, 0,0,0,0, 0,0,0,0, 0,0,0,0],
        rim = [0,0,1,0, 0,0,0,0, 0,0,1,0, 0,0,0,0]\<rparr>),
     (''march'', \<lparr>steps = 16, timeSignature = ''4/4'',
        kick = [1,0,0,0, 1,0,0,0, 1,0,0,0, 1,0,0,0],
        snare = [0,0,1,0, 0,0,1,0, 0,0,1,0, 0,0,1,0],
        hihat = [1,0,1,0, 1,0,1,0, 1,0,1,0, 1,0,1,0],
        ohihat = [0,0,0,0, 0,0,0,0, 0,0,0,0, 0,0,0,0],
        clap = [0,0,0,0, 0,0,0,0, 0,0,0,0, 0,0,0,0],
        rim = [0,0,0,0, 0,0,0,0, 0,0,0,0, 0,0,0,1]\<rparr>),
     (''disco'', \<lparr>steps = 16, timeSignature = ''4/4'',
        kick = [1,0,0,0, 1,0,0,0, 1,0,0,0, 1,0,0,0],
        snare = [0,0,0,0, 1,0,0,0, 0,0,0,0, 1,0,0,0],
        hihat = [1,1,1,1, 1,1,1,1, 1,1,1,1, 1,1,1,1],
        ohihat = [0,0,0,1, 0,0,0,1, 0,0,0,1, 0,0,0,1],
        clap = [0,0,0,0, 1,0,0,0, 0,0,0,0, 1,0,0,0],
        rim = [0,0,0,0, 0,0,0,0, 0,0,0,0, 0,0,0,0]\<rparr>)
    ]"

text \<open>
  \<^verbatim>\<open>PATTERNS[name]\<close>; the names come from the pattern selector of the page.
  Property names that a JavaScript object inherits (such as \<^verbatim>\<open>constructor\<close>) are
  not in the model: the lookup knows the eight patterns of the table only.
\<close>

definition lookup_pattern :: "string \<Rightarrow> pattern option" where
  "lookup_pattern name = map_of PATTERNS name"

text \<open>\<^verbatim>\<open>p.kick[step]\<close> as a condition: an index past the end is \<^verbatim>\<open>undefined\<close>, falsy.\<close>

definition hit :: "nat list \<Rightarrow> nat \<Rightarrow> bool" where
  "hit row step = (step < length row \<and> row ! step \<noteq> 0)"

subsection \<open>Module state\<close>

text \<open>
  The module variables of \<^verbatim>\<open>Rhythm\<close>. The count-in callback is the closure built by
  \<^verbatim>\<open>startCountIn\<close>: it captures \<open>wasMetronomeOn\<close> and the caller's callback.
  \<open>lookaheadTimer\<close> tells whether the interval timer is armed; \<open>beatCurrent\<close> is the
  beat dot carrying the \<^verbatim>\<open>current\<close> class (\<open>-1\<close>: none).
\<close>

record 'cb rhythm =
  playing :: bool
  tempo :: rat
  volume :: rat
  currentStep :: nat
  currentPattern :: string
  lookaheadTimer :: bool
  nextStepTime :: rat
  metronomeOn :: bool
  countInCallback :: "(bool \<times> 'cb) option"
  countInStep :: int
  beatCurrent :: int

definition rhythm_init :: "'cb rhythm" where
  "rhythm_init =
     \<lparr>playing = False, tempo = 120, volume = 6 / 10, currentStep = 0,
      currentPattern = ''rock'', lookaheadTimer = False, nextStepTime = 0,
      metronomeOn = False, countInCallback = None, countInStep = - 1, beatCurrent = - 1\<rparr>"

definition SCHEDULE_AHEAD :: rat where
  "SCHEDULE_AHEAD = 1 / 10"

definition getStepDuration :: "'cb rhythm \<Rightarrow> rat" where
  "getStepDuration s = 60 / tempo s / 4"

definition getPatternSteps :: "'cb rhythm \<Rightarrow> nat" where
  "getPatternSteps s =
     (case lookup_pattern (currentPattern s) of
        None \<Rightarrow> 16
      | Some p \<Rightarrow> if steps p = 0 then 16 else steps p)"

subsection \<open>Scheduling one step\<close>

text \<open>
  What \<^verbatim>\<open>scheduleStep\<close> asks of its collaborators, in call order: the voices of
  \<^verbatim>\<open>Audio\<close>, the MIDI output, the animation frame for the beat indicator and the
  zero-delay timeout that defers the count-in callback.
\<close>

datatype 'cb action =
    PlayMetronomeClick rat bool
  | PlayKick rat rat
  | PlaySnare rat rat
  | PlayHihat rat bool rat
  | PlayClap rat rat
  | PlayRim rat rat
  | SendNoteOn int int int
  | RequestBeatIndicator nat
  | SetTimeout "bool \<times> 'cb"

definition voice_actions :: "pattern \<Rightarrow> nat \<Rightarrow> rat \<Rightarrow> rat \<Rightarrow> 'cb action list" where
  "voice_actions p step t vol =
     (if hit (kick p) step then [PlayKick t vol] else [])
     @ (if hit (snare p) step then [PlaySnare t (vol * (8 / 10))] else [])
     @ (if hit (hihat p) step then [PlayHihat t False (vol * (5 / 10))] else [])
     @ (if hit (ohihat p) step then [PlayHihat t True (vol * (5 / 10))] else [])
     @ (if hit (clap p) step then [PlayClap t (vol * (6 / 10))] else [])
     @ (if hit (rim p) step then [PlayRim t (vol * (5 / 10))] else [])"

definition midi_actions :: "pattern \<Rightarrow> nat \<Rightarrow> rat \<Rightarrow> 'cb action list" where
  "midi_actions p step vol =
     (if hit (kick p) step then [SendNoteOn 10 36 (math_round (vol * 100))] else [])
     @ (if hit (snare p) step then [SendNoteOn 10 38 (math_round (vol * 80))] else [])
     @ (if hit (hihat p) step then [SendNoteOn 10 42 (math_round (vol * 60))] else [])
     @ (if hit (ohihat p) step then [SendNoteOn 10 46 (math_round (vol * 60))] else [])
     @ (if hit (clap p) step then [SendNoteOn 10 39 (math_round (vol * 70))] else [])
     @ (if hit (rim p) step then [SendNoteOn 10 37 (math_round (vol * 60))] else [])"

definition scheduleStep :: "'cb rhythm \<Rightarrow> nat \<Rightarrow> rat \<Rightarrow> 'cb rhythm \<times> 'cb action list" where
  "scheduleStep s step t =
     (case lookup_pattern (currentPattern s) of
        None \<Rightarrow> (s, [])
      | Some p \<Rightarrow>
          (let stepsPerBeat = 4;
               click = (if metronomeOn s \<and> step mod stepsPerBeat = 0
                        then [PlayMetronomeClick t (step div stepsPerBeat = 0)] else []);
               acts = click @ voice_actions p step t (volume s) @ midi_actions p step (volume s)
                        @ [RequestBeatIndicator step]
           in case countInCallback s of
                None \<Rightarrow> (s, acts)
              | Some cb \<Rightarrow>
                  if step = 0
                  then (if countInStep s > 0
                        then (s\<lparr>countInStep := countInStep s - 1\<rparr>, acts)
                        else (s\<lparr>countInCallback := None, countInStep := - 1\<rparr>,
                              acts @ [SetTimeout cb]))
                  else (s, acts)))"

subsection \<open>The look-ahead loop\<close>

text \<open>
  One run of the \<^verbatim>\<open>while\<close> loop of \<^verbatim>\<open>scheduler\<close>, for the clock reading
  \<open>now\<close> (\<^verbatim>\<open>ctx.currentTime\<close>). The loop has no bound of its own, so it is a
  partial function: \<open>None\<close> stands for a loop that never ends. Every call of
  \<^verbatim>\<open>scheduleStep\<close> is logged with its arguments and what it requested.

  The source adds \<^verbatim>\<open>60 / tempo / 4\<close> to \<^verbatim>\<open>nextStepTime\<close> in IEEE doubles and
  rounds at every step; here the sum is exact. The due times of the model, and with
  them the number of steps that one run schedules, can therefore differ from those of
  the browser (at tempo 100 the twentieth due time is 3 here and
  2.999999999999999 there). The order of the steps and the count-in bookkeeping do
  not depend on the times. No statement below is about the size of the rounding
  error.
\<close>

type_synonym 'cb call = "nat \<times> rat \<times> 'cb action list"

definition loop_body :: "'cb rhythm \<Rightarrow> 'cb rhythm \<times> 'cb call" where
  "loop_body s =
     (let (s1, acts) = scheduleStep s (currentStep s) (nextStepTime s);
          s2 = s1\<lparr>nextStepTime := nextStepTime s1 + getStepDuration s1\<rparr>;
          s3 = s2\<lparr>currentStep := (currentStep s2 + 1) mod getPatternSteps s2\<rparr>
      in (s3, (currentStep s, nextStepTime s, acts)))"

partial_function (option) scheduler_loop ::
  "rat \<Rightarrow> 'cb rhythm \<Rightarrow> 'cb call list \<Rightarrow> ('cb rhythm \<times> 'cb call list) option" where
  "scheduler_loop now s calls =
     (if nextStepTime s < now + SCHEDULE_AHEAD
      then scheduler_loop now (fst (loop_body s)) (calls @ [snd (loop_body s)])
      else Some (s, calls))"

declare scheduler_loop.simps [code]

text \<open>
  \<^verbatim>\<open>scheduler\<close> is the interval callback. The audio context is the collaborator
  \<^verbatim>\<open>Audio.getContext()\<close>: \<open>None\<close> when there is none, otherwise its clock.
\<close>

definition scheduler :: "rat option \<Rightarrow> 'cb rhythm \<Rightarrow> ('cb rhythm \<times> 'cb call list) option" where
  "scheduler ctx s =
     (case ctx of None \<Rightarrow> Some (s, []) | Some now \<Rightarrow> scheduler_loop now s [])"

subsection \<open>Control calls\<close>

definition start :: "rat option \<Rightarrow> 'cb rhythm \<Rightarrow> 'cb rhythm" where
  "start ctx s =
     (if playing s then s
      else case ctx of
             None \<Rightarrow> s
           | Some now \<Rightarrow>
               s\<lparr>playing := True, currentStep := 0, nextStepTime := now,
                 lookaheadTimer := True\<rparr>)"

definition stop :: "'cb rhythm \<Rightarrow> 'cb rhythm" where
  "stop s =
     (if \<not> playing s then s
      else s\<lparr>playing := False, lookaheadTimer := False, currentStep := 0,
             beatCurrent := - 1\<rparr>)"

definition toggle :: "rat option \<Rightarrow> 'cb rhythm \<Rightarrow> 'cb rhythm \<times> bool" where
  "toggle ctx s = (let s' = (if playing s then stop s else start ctx s) in (s', playing s'))"

definition setTempo :: "rat \<Rightarrow> 'cb rhythm \<Rightarrow> 'cb rhythm" where
  "setTempo bpm s = s\<lparr>tempo := max 60 (min 200 bpm)\<rparr>"

definition getTempo :: "'cb rhythm \<Rightarrow> rat" where
  "getTempo s = tempo s"

definition setVolume :: "rat \<Rightarrow> 'cb rhythm \<Rightarrow> 'cb rhythm" where
  "setVolume val s = s\<lparr>volume := max 0 (min 1 val)\<rparr>"

definition setPattern :: "string \<Rightarrow> 'cb rhythm \<Rightarrow> 'cb rhythm" where
  "setPattern name s =
     (case lookup_pattern name of
        None \<Rightarrow> s
      | Some p \<Rightarrow>
          (let s1 = s\<lparr>currentPattern := name\<rparr>
           in if playing s1 then s1\<lparr>currentStep := currentStep s1 mod getPatternSteps s1\<rparr>
              else s1))"

definition toggleMetronome :: "'cb rhythm \<Rightarrow> 'cb rhythm \<times> bool" where
  "toggleMetronome s = (let s' = s\<lparr>metronomeOn := \<not> metronomeOn s\<rparr> in (s', metronomeOn s'))"

definition updateBeatIndicator :: "int \<Rightarrow> 'cb rhythm \<Rightarrow> 'cb rhythm" where
  "updateBeatIndicator step s = s\<lparr>beatCurrent := step\<rparr>"

text \<open>
  \<^verbatim>\<open>startCountIn(beatsCount, callback)\<close>; \<open>beatsCount\<close> is not read. The stored
  closure is the pair of \<open>wasMetronomeOn\<close> and \<open>callback\<close>;
  \<open>run_countInCallback\<close> is its body, returning the callback it calls last.
\<close>

definition startCountIn :: "rat option \<Rightarrow> 'cb \<Rightarrow> 'cb rhythm \<Rightarrow> 'cb rhythm" where
  "startCountIn ctx callback s =
     (let wasMetronomeOn = metronomeOn s;
          s1 = s\<lparr>metronomeOn := True\<rparr>;
          wasPlaying = playing s1;
          s2 = (if \<not> playing s1 then start ctx s1 else s1)
      in s2\<lparr>countInStep := (if wasPlaying then 0 else 1),
            countInCallback := Some (wasMetronomeOn, callback)\<rparr>)"

definition run_countInCallback :: "bool \<times> 'cb \<Rightarrow> 'cb rhythm \<Rightarrow> 'cb rhythm \<times> 'cb" where
  "run_countInCallback cl s =
     ((if \<not> fst cl then s\<lparr>metronomeOn := False\<rparr> else s), snd cl)"

definition getBeatsPerBar :: "'cb rhythm \<Rightarrow> nat" where
  "getBeatsPerBar s =
     (case lookup_pattern (currentPattern s) of
        None \<Rightarrow> 4
      | Some p \<Rightarrow> if timeSignature p = ''3/4'' then 3 else 4)"

definition getBarDuration :: "'cb rhythm \<Rightarrow> rat" where
  "getBarDuration s = of_nat (getBeatsPerBar s) * (60 / tempo s)"


text \<open>The count-in closures that a call of \<^verbatim>\<open>scheduleStep\<close> handed to \<^verbatim>\<open>setTimeout\<close>.\<close>

fun fired :: "'cb action list \<Rightarrow> (bool \<times> 'cb) list" where
  "fired [] = []"
| "fired (SetTimeout cl # acts) = cl # fired acts"
| "fired (a # acts) = fired acts"

text \<open>
  The states the module can be in: the initial one, and what the exported functions,
  the interval timer (only while it is armed), the animation frames and the deferred
  count-in closure make of a state already reached.
\<close>

inductive reachable :: "'cb rhythm \<Rightarrow> bool" where
  r_init: "reachable rhythm_init"
| r_start: "reachable s \<Longrightarrow> reachable (start ctx s)"
| r_stop: "reachable s \<Longrightarrow> reachable (stop s)"
| r_toggle: "reachable s \<Longrightarrow> reachable (fst (toggle ctx s))"
| r_setTempo: "reachable s \<Longrightarrow> reachable (setTempo bpm s)"
| r_setVolume: "reachable s \<Longrightarrow> reachable (setVolume val s)"
| r_setPattern: "reachable s \<Longrightarrow> reachable (setPattern name s)"
| r_toggleMetronome: "reachable s \<Longrightarrow> reachable (fst (toggleMetronome s))"
| r_startCountIn: "reachable s \<Longrightarrow> reachable (startCountIn ctx cb s)"
| r_tick: "reachable s \<Longrightarrow> lookaheadTimer s \<Longrightarrow> scheduler ctx s = Some (s', calls)
             \<Longrightarrow> reachable s'"
| r_frame: "reachable s \<Longrightarrow> reachable (updateBeatIndicator step s)"
| r_countIn: "reachable s \<Longrightarrow> reachable (fst (run_countInCallback cl s))"

section \<open>The loop recorder (\<^verbatim>\<open>recorder.js\<close>)\<close>

subsection \<open>State\<close>

datatype rstate = Idle | CountingIn | Recording | Overdub | Playing

type_synonym stream = nat
type_synonym chunk = "byte list"
type_synonym blob = "chunk list"

text \<open>
  A \<^verbatim>\<open>MediaRecorder\<close>: whether its state is other than \<^verbatim>\<open>'inactive'\<close>, and which
  function is installed as \<^verbatim>\<open>onstop\<close>.
\<close>

datatype stop_handler = OnRecordingStop | OnOverdubStop

record media_recorder =
  mr_stream :: stream
  mr_active :: bool
  mr_onstop :: stop_handler

record layer =
  blob :: blob
  events :: "event list"

record recorder =
  state :: rstate
  mediaRecorder :: "media_recorder option"
  audioChunks :: "chunk list"
  audioBlob :: "blob option"
  audioElement :: "blob option"
  eventLog :: "event list"
  recordStartTime :: rat
  loopLengthBars :: int
  loopDurationMs :: rat
  playbackStart :: rat
  layers :: "layer list"

definition recorder_init :: recorder where
  "recorder_init =
     \<lparr>state = Idle, mediaRecorder = None, audioChunks = [], audioBlob = None,
      audioElement = None, eventLog = [], recordStartTime = 0, loopLengthBars = 4,
      loopDurationMs = 0, playbackStart = 0, layers = []\<rparr>"

text \<open>
  What has been handed to the browser and has not run yet: the zero-delay timeout of
  the count-in closure, the auto-stop timeouts (with the state they test and their
  delay), and the \<^verbatim>\<open>stop\<close> event of a media recorder.
\<close>

datatype task =
    CountInTimeout "bool \<times> stream"
  | AutoStop rstate rat
  | MediaStopped stop_handler

text \<open>
  Both modules, the pending tasks and the files offered for download. The canvas, the
  buttons and the playhead are not part of the model: \<^verbatim>\<open>updateUI\<close>,
  \<^verbatim>\<open>drawTimeline\<close> and the animation frames write to the page only.
\<close>

record system =
  rhy :: "stream rhythm"
  rcd :: recorder
  tasks :: "task list"
  downloads :: "(string \<times> byte list) list"

definition system_init :: system where
  "system_init = \<lparr>rhy = rhythm_init, rcd = recorder_init, tasks = [], downloads = []\<rparr>"

text \<open>
  What a call reads from its surroundings: \<^verbatim>\<open>performance.now()\<close>,
  \<^verbatim>\<open>Audio.getMediaStream()\<close>, \<^verbatim>\<open>Audio.getContext()\<close> with its clock, and
  \<^verbatim>\<open>decodeAudioData\<close> (\<open>None\<close>: the promise is rejected).
\<close>

record env =
  perf_now :: rat
  media_stream :: "stream option"
  audio_ctx :: "rat option"
  decode :: "blob \<Rightarrow> audio_buffer option"

subsection \<open>Recording\<close>

datatype loop_arg = Free | Bars int

definition setLoopLength :: "loop_arg \<Rightarrow> system \<Rightarrow> system" where
  "setLoopLength bars sys =
     (case bars of
        Free \<Rightarrow> sys\<lparr>rcd := (rcd sys)\<lparr>loopLengthBars := 0, loopDurationMs := 0\<rparr>\<rparr>
      | Bars n \<Rightarrow>
          sys\<lparr>rcd := (rcd sys)\<lparr>loopLengthBars := n,
                  loopDurationMs := of_int n * getBarDuration (rhy sys) * 1000\<rparr>\<rparr>)"

definition startRecording :: "env \<Rightarrow> system \<Rightarrow> system" where
  "startRecording e sys =
     (if state (rcd sys) = Recording \<or> state (rcd sys) = CountingIn then sys
      else case media_stream e of
             None \<Rightarrow> sys
           | Some strm \<Rightarrow>
               sys\<lparr>rcd := (rcd sys)\<lparr>state := CountingIn\<rparr>,
                   rhy := startCountIn (audio_ctx e) strm (rhy sys)\<rparr>)"

definition actuallyStartRecording :: "env \<Rightarrow> stream \<Rightarrow> system \<Rightarrow> system" where
  "actuallyStartRecording e strm sys =
     (let r1 = (rcd sys)\<lparr>state := Recording, eventLog := [], audioChunks := [],
                          recordStartTime := perf_now e\<rparr>;
          r2 = (if loopLengthBars r1 > 0
                then r1\<lparr>loopDurationMs :=
                          of_int (loopLengthBars r1) * getBarDuration (rhy sys) * 1000\<rparr>
                else r1);
          r3 = r2\<lparr>mediaRecorder :=
                     Some \<lparr>mr_stream = strm, mr_active = True, mr_onstop = OnRecordingStop\<rparr>\<rparr>
      in sys\<lparr>rcd := r3,
             tasks := tasks sys @ (if loopDurationMs r3 > 0
                                   then [AutoStop Recording (loopDurationMs r3)] else [])\<rparr>)"

definition playLoop :: "env \<Rightarrow> system \<Rightarrow> system" where
  "playLoop e sys =
     (if layers (rcd sys) = [] then sys
      else sys\<lparr>rcd := (rcd sys)\<lparr>state := Playing,
                   audioElement := (case audioElement (rcd sys) of
                                      None \<Rightarrow> Some (blob (hd (layers (rcd sys))))
                                    | Some a \<Rightarrow> Some a),
                   playbackStart := perf_now e\<rparr>\<rparr>)"

definition startOverdub :: "env \<Rightarrow> system \<Rightarrow> system" where
  "startOverdub e sys =
     (if audioBlob (rcd sys) = None \<and> layers (rcd sys) = [] then startRecording e sys
      else
        (let sys1 = sys\<lparr>rcd := (rcd sys)\<lparr>state := Overdub, eventLog := [], audioChunks := [],
                                 recordStartTime := perf_now e\<rparr>\<rparr>
         in case media_stream e of
              None \<Rightarrow> sys1
            | Some strm \<Rightarrow>
                (let sys2 = sys1\<lparr>rcd := (rcd sys1)\<lparr>mediaRecorder :=
                               Some \<lparr>mr_stream = strm, mr_active = True,
                                     mr_onstop = OnOverdubStop\<rparr>\<rparr>\<rparr>;
                     sys3 = playLoop e sys2
                 in sys3\<lparr>tasks := tasks sys3 @
                            (if loopDurationMs (rcd sys3) > 0
                             then [AutoStop Overdub (loopDurationMs (rcd sys3))] else [])\<rparr>)))"

definition stopRecording :: "system \<Rightarrow> system" where
  "stopRecording sys =
     (if state (rcd sys) = CountingIn then sys\<lparr>rcd := (rcd sys)\<lparr>state := Idle\<rparr>\<rparr>
      else if state (rcd sys) \<noteq> Recording \<and> state (rcd sys) \<noteq> Overdub then sys
      else case mediaRecorder (rcd sys) of
             None \<Rightarrow> sys
           | Some m \<Rightarrow>
               if mr_active m
               then sys\<lparr>rcd := (rcd sys)\<lparr>mediaRecorder := Some (m\<lparr>mr_active := False\<rparr>)\<rparr>,
                        tasks := tasks sys @ [MediaStopped (mr_onstop m)]\<rparr>
               else sys)"

definition onRecordingStop :: "env \<Rightarrow> system \<Rightarrow> system" where
  "onRecordingStop e sys =
     (let r1 = (if loopDurationMs (rcd sys) = 0
                then (rcd sys)\<lparr>loopDurationMs := perf_now e - recordStartTime (rcd sys)\<rparr>
                else rcd sys);
          r2 = r1\<lparr>audioBlob := Some (audioChunks r1)\<rparr>
      in sys\<lparr>rcd := r2\<lparr>layers := [\<lparr>blob = audioChunks r1, events = eventLog r2\<rparr>],
                       state := Idle\<rparr>\<rparr>)"

definition onOverdubStop :: "system \<Rightarrow> system" where
  "onOverdubStop sys =
     (let r = rcd sys; newBlob = audioChunks r
      in sys\<lparr>rcd := r\<lparr>layers := layers r @ [\<lparr>blob = newBlob, events = eventLog r\<rparr>],
                      audioBlob := Some newBlob, state := Idle, audioElement := None\<rparr>\<rparr>)"

definition onDataAvailable :: "chunk \<Rightarrow> system \<Rightarrow> system" where
  "onDataAvailable c sys =
     (if length c > 0 then sys\<lparr>rcd := (rcd sys)\<lparr>audioChunks := audioChunks (rcd sys) @ [c]\<rparr>\<rparr>
      else sys)"

definition logEvent ::
  "env \<Rightarrow> string \<Rightarrow> int option \<Rightarrow> int option \<Rightarrow> int option \<Rightarrow> system \<Rightarrow> system" where
  "logEvent e ty ch mi ve sys =
     (if state (rcd sys) \<noteq> Recording \<and> state (rcd sys) \<noteq> Overdub then sys
      else sys\<lparr>rcd := (rcd sys)\<lparr>eventLog := eventLog (rcd sys) @
                 [\<lparr>time = perf_now e - recordStartTime (rcd sys), etype = ty,
                   channel = ch, midi = mi, velocity = ve\<rparr>]\<rparr>\<rparr>)"

definition stopPlayback :: "system \<Rightarrow> system" where
  "stopPlayback sys = sys\<lparr>rcd := (rcd sys)\<lparr>state := Idle, audioElement := None\<rparr>\<rparr>"

definition clear :: "system \<Rightarrow> system" where
  "clear sys =
     (let sys1 = stopPlayback sys
      in sys1\<lparr>rcd := (rcd sys1)\<lparr>layers := [], eventLog := [], audioBlob := None,
                    audioChunks := [], loopDurationMs := 0, state := Idle\<rparr>\<rparr>)"

definition getState :: "system \<Rightarrow> rstate" where
  "getState sys = state (rcd sys)"

subsection \<open>Export\<close>

text \<open>
  \<^verbatim>\<open>exportWAV\<close> is asynchronous; a decoding failure is caught, an exception of the
  encoder rejects the promise. In both cases nothing is downloaded.
\<close>

definition exportWAV :: "env \<Rightarrow> system \<Rightarrow> system" where
  "exportWAV e sys =
     (if layers (rcd sys) = [] then sys
      else case audio_ctx e of
             None \<Rightarrow> sys
           | Some t \<Rightarrow>
               (case decode e (blob (hd (layers (rcd sys)))) of
                  None \<Rightarrow> sys
                | Some audioBuffer \<Rightarrow>
                    (case audioBufferToWav audioBuffer of
                       None \<Rightarrow> sys
                     | Some wav \<Rightarrow>
                         sys\<lparr>downloads := downloads sys @ [(''omnichord-loop.wav'', wav)]\<rparr>)))"

definition exportMIDI :: "system \<Rightarrow> system" where
  "exportMIDI sys =
     (let allEvents = concat (map events (layers (rcd sys)))
      in if allEvents = [] then sys
         else sys\<lparr>downloads := downloads sys @
                    [(''omnichord-loop.mid'',
                      buildMidiFile (getTempo (rhy sys)) allEvents (loopDurationMs (rcd sys)))]\<rparr>)"

subsection \<open>The event loop\<close>

text \<open>
  A pending task runs: the count-in closure restores the metronome and calls
  \<^verbatim>\<open>actuallyStartRecording(stream)\<close>; an auto-stop timeout stops the recording if
  the state is still the one it was armed in; a \<^verbatim>\<open>stop\<close> event runs the handler.
\<close>

definition run_task :: "env \<Rightarrow> task \<Rightarrow> system \<Rightarrow> system" where
  "run_task e t sys =
     (case t of
        CountInTimeout cl \<Rightarrow>
          (let (r, strm) = run_countInCallback cl (rhy sys)
           in actuallyStartRecording e strm (sys\<lparr>rhy := r\<rparr>))
      | AutoStop st ms \<Rightarrow> if state (rcd sys) = st then stopRecording sys else sys
      | MediaStopped OnRecordingStop \<Rightarrow> onRecordingStop e sys
      | MediaStopped OnOverdubStop \<Rightarrow> onOverdubStop sys)"

text \<open>
  The interval timer of the sequencer fires at clock reading \<open>now\<close>: the scheduler
  runs, and the closures it deferred are queued.
\<close>

definition interval_tick :: "rat \<Rightarrow> system \<Rightarrow> system option" where
  "interval_tick now sys =
     (if \<not> lookaheadTimer (rhy sys) then Some sys
      else case scheduler (Some now) (rhy sys) of
             None \<Rightarrow> None
           | Some (r, calls) \<Rightarrow>
               Some (sys\<lparr>rhy := r,
                         tasks := tasks sys @
                           map CountInTimeout (concat (map (\<lambda>c. fired (snd (snd c))) calls))\<rparr>))"

text \<open>All pending tasks run, in the order in which they were queued.\<close>

definition run_pending :: "env \<Rightarrow> system \<Rightarrow> system" where
  "run_pending e sys = fold (run_task e) (tasks sys) (sys\<lparr>tasks := []\<rparr>)"

text \<open>The public methods of \<^verbatim>\<open>Recorder\<close> as one call interface.\<close>

datatype api_call =
    StartRecording
  | StartOverdub
  | StopRecording
  | PlayLoop
  | StopPlayback
  | Clear
  | LogEvent string "int option" "int option" "int option"
  | SetLoopLength loop_arg
  | ExportWAV
  | ExportMIDI
  | GetState

fun invoke :: "env \<Rightarrow> api_call \<Rightarrow> system \<Rightarrow> system" where
  "invoke e StartRecording sys = startRecording e sys"
| "invoke e StartOverdub sys = startOverdub e sys"
| "invoke e StopRecording sys = stopRecording sys"
| "invoke e PlayLoop sys = playLoop e sys"
| "invoke e StopPlayback sys = stopPlayback sys"
| "invoke e Clear sys = clear sys"
| "invoke e (LogEvent ty ch mi ve) sys = logEvent e ty ch mi ve sys"
| "invoke e (SetLoopLength bars) sys = setLoopLength bars sys"
| "invoke e ExportWAV sys = exportWAV e sys"
| "invoke e ExportMIDI sys = exportMIDI sys"
| "invoke e GetState sys = sys"

section \<open>Vocabulary of the statements\<close>




definition no_zero :: "'cb call list \<Rightarrow> bool" where
  "no_zero cs \<longleftrightarrow> (\<forall>c\<in>set cs. fst c \<noteq> 0)"




text \<open>
  Reading an encoded file back: the unsigned and the signed little-endian number at a
  byte offset, and the ASCII tag at an offset. \<open>enc16\<close> is the pair of bytes that the
  sample loop stores for one sample.
\<close>

definition le16 :: "byte list \<Rightarrow> nat \<Rightarrow> nat" where
  "le16 bs i = unat (bs ! i) + 256 * unat (bs ! (i + 1))"

definition le32 :: "byte list \<Rightarrow> nat \<Rightarrow> nat" where
  "le32 bs i = unat (bs ! i) + 256 * unat (bs ! (i + 1)) + 65536 * unat (bs ! (i + 2))
                 + 16777216 * unat (bs ! (i + 3))"

definition ascii :: "byte list \<Rightarrow> nat \<Rightarrow> string \<Rightarrow> bool" where
  "ascii bs i str \<longleftrightarrow> map (\<lambda>k. bs ! (i + k)) [0 ..< length str] = map of_char str"

definition sle16 :: "byte list \<Rightarrow> nat \<Rightarrow> int" where
  "sle16 bs i = (let u = int (le16 bs i) in if u < 32768 then u else u - 65536)"

definition enc16 :: "sample \<Rightarrow> byte list" where
  "enc16 x = (let v = toInteger (scale_sample (clamp_sample x))
              in [toUint8 v, toUint8 (v div 256)])"

text \<open>Two buffers for the examples: one in range, one with samples far outside of it.\<close>

definition wav_example :: audio_buffer where
  "wav_example = \<lparr>numberOfChannels = 2, sampleRate = 48000,
                    channelData = [[Fin (1 / 2), Fin (- 1)], [Fin 0, Fin 1]]\<rparr>"

definition loud_example :: audio_buffer where
  "loud_example = \<lparr>numberOfChannels = 1, sampleRate = 44100,
                     channelData = [[Fin 5, Fin (- 7 / 2), NaN, PosInf, NegInf]]\<rparr>"


text \<open>
  Reading a Standard MIDI File back. \<open>scan\<close> walks the track body byte by byte: a
  variable-length delta time (seven bits per byte, continuation bit on all but the
  last), then a status byte, then either a meta event (type, length, data) or the two
  data bytes of a channel event. It returns the absolute tick, the sum of all delta
  times read so far, of every Note-On. \<open>note_on_ticks\<close> skips the 14 bytes of
  \<^verbatim>\<open>MThd\<close> and the 8 bytes of the \<^verbatim>\<open>MTrk\<close> header.
\<close>

datatype reader = Delta nat | Status | MetaType | MetaLen | Skip nat

fun scan :: "reader \<Rightarrow> nat \<Rightarrow> byte list \<Rightarrow> nat list" where
  "scan st now [] = []"
| "scan (Delta acc) now (b # bs) =
     (let acc' = acc * 128 + unat (b AND 127)
      in if b AND 128 = 0 then scan Status (now + acc') bs else scan (Delta acc') now bs)"
| "scan Status now (b # bs) =
     (if b = 255 then scan MetaType now bs
      else if b AND 240 = 144 then now # scan (Skip 2) now bs
      else scan (Skip 2) now bs)"
| "scan MetaType now (b # bs) = scan MetaLen now bs"
| "scan MetaLen now (b # bs) =
     (if b = 0 then scan (Delta 0) now bs else scan (Skip (unat b)) now bs)"
| "scan (Skip n) now (b # bs) =
     (if n \<le> 1 then scan (Delta 0) now bs else scan (Skip (n - 1)) now bs)"

definition note_on_ticks :: "byte list \<Rightarrow> nat list" where
  "note_on_ticks file = scan (Delta 0) 0 (drop 22 file)"

text \<open>Two notes, logged 100 ms and 900 ms after the start of the recording.\<close>

definition midi_example :: "event list" where
  "midi_example =
     [\<lparr>time = 100, etype = ''note'', channel = Some 1, midi = Some 60, velocity = Some 100\<rparr>,
      \<lparr>time = 900, etype = ''note'', channel = Some 1, midi = Some 62, velocity = Some 100\<rparr>]"

text \<open>
  Surroundings for the recorder scenarios: a media stream and an audio context exist;
  \<open>later\<close> is the same two seconds on.
\<close>

definition studio :: env where
  "studio = \<lparr>perf_now = 0, media_stream = Some 1, audio_ctx = Some 0, decode = (\<lambda>b. None)\<rparr>"

definition later :: env where
  "later = studio\<lparr>perf_now := 2000\<rparr>"

text \<open>\<^verbatim>\<open>startRecording()\<close> on the fresh page, then \<^verbatim>\<open>stopRecording()\<close> during the count-in.\<close>

definition cancelled_count_in :: system where
  "cancelled_count_in = stopRecording (startRecording studio system_init)"

text \<open>
  A finished base recording: capture started, one chunk arrived, \<^verbatim>\<open>stopRecording()\<close>,
  and the \<^verbatim>\<open>stop\<close> event of the media recorder has run.
\<close>

definition recorded_system :: system where
  "recorded_system =
     run_pending later
       (stopRecording (onDataAvailable [1] (actuallyStartRecording studio 1 system_init)))"

text \<open>
  The state machine of section 4.3 of the specification, in its words: for a method,
  whether a layer exists, and a state, the states the method may lead to. The guard of
  \<^verbatim>\<open>startRecording\<close> is read as the specification words it (not already counting
  in or recording); \<^verbatim>\<open>startOverdub\<close> without a layer behaves as
  \<^verbatim>\<open>startRecording\<close>. A method is total when it leads to such a state or leaves the
  state as it is.
\<close>

fun spec_transition :: "api_call \<Rightarrow> bool \<Rightarrow> rstate \<Rightarrow> rstate set" where
  "spec_transition StartRecording has_layer st =
     (if st = CountingIn \<or> st = Recording then {} else {CountingIn})"
| "spec_transition StartOverdub has_layer st =
     (if has_layer then (if st = Idle then {Overdub} else {})
      else if st = CountingIn \<or> st = Recording then {} else {CountingIn})"
| "spec_transition StopRecording has_layer st =
     (if st = CountingIn \<or> st = Recording \<or> st = Overdub then {Idle} else {})"
| "spec_transition PlayLoop has_layer st =
     (if st = Idle \<and> has_layer then {Playing} else {})"
| "spec_transition StopPlayback has_layer st = (if st = Playing then {Idle} else {})"
| "spec_transition Clear has_layer st = {Idle}"
| "spec_transition call has_layer st = {}"

definition spec_total :: "env \<Rightarrow> api_call \<Rightarrow> system \<Rightarrow> bool" where
  "spec_total e call sys \<longleftrightarrow>
     getState (invoke e call sys) = getState sys
     \<or> getState (invoke e call sys)
          \<in> spec_transition call (layers (rcd sys) \<noteq> []) (getState sys)"

text \<open>
  The loop length is unset when it is as \<^verbatim>\<open>setLoopLength('free')\<close> leaves it: no bar
  count and no duration.
\<close>

definition loop_length_unset :: "system \<Rightarrow> bool" where
  "loop_length_unset sys \<longleftrightarrow> loopLengthBars (rcd sys) = 0 \<and> loopDurationMs (rcd sys) = 0"

text \<open>A recorder holding one layer with the two example notes.\<close>

definition logged_system :: system where
  "logged_system =
     system_init\<lparr>rcd := recorder_init\<lparr>layers := [\<lparr>blob = [[1]], events = midi_example\<rparr>]\<rparr>\<rparr>"

section \<open>The look-ahead scheduler\<close>

subsection \<open>What one step changes\<close>

lemma scheduleStep_fields [simp]:
  "tempo (fst (scheduleStep s step t)) = tempo s"
  "nextStepTime (fst (scheduleStep s step t)) = nextStepTime s"
  "currentPattern (fst (scheduleStep s step t)) = currentPattern s"
  "currentStep (fst (scheduleStep s step t)) = currentStep s"
  "playing (fst (scheduleStep s step t)) = playing s"
  "lookaheadTimer (fst (scheduleStep s step t)) = lookaheadTimer s"
  by (simp_all add: scheduleStep_def Let_def split: option.splits)

lemma loop_body_call:
  "snd (loop_body s) =
     (currentStep s, nextStepTime s, snd (scheduleStep s (currentStep s) (nextStepTime s)))"
  by (simp add: loop_body_def Let_def split_beta)

lemma loop_body_call_fields [simp]:
  "fst (snd (loop_body s)) = currentStep s"
  "fst (snd (snd (loop_body s))) = nextStepTime s"
  by (simp_all add: loop_body_call)

lemma loop_body_state:
  "fst (loop_body s) =
     (fst (scheduleStep s (currentStep s) (nextStepTime s)))
       \<lparr>nextStepTime := nextStepTime s + getStepDuration s,
        currentStep := (currentStep s + 1) mod getPatternSteps s\<rparr>"
  by (simp add: loop_body_def Let_def split_beta getStepDuration_def getPatternSteps_def)

lemma loop_body_fields [simp]:
  "tempo (fst (loop_body s)) = tempo s"
  "currentPattern (fst (loop_body s)) = currentPattern s"
  "playing (fst (loop_body s)) = playing s"
  "lookaheadTimer (fst (loop_body s)) = lookaheadTimer s"
  "nextStepTime (fst (loop_body s)) = nextStepTime s + getStepDuration s"
  "currentStep (fst (loop_body s)) = (currentStep s + 1) mod getPatternSteps s"
  by (simp_all add: loop_body_state)

lemma getPatternSteps_loop_body [simp]:
  "getPatternSteps (fst (loop_body s)) = getPatternSteps s"
  by (simp add: getPatternSteps_def)

lemma getPatternSteps_pos: "0 < getPatternSteps s"
  by (simp add: getPatternSteps_def split: option.splits)

subsection \<open>The loop ends, and keeps what every step keeps\<close>



subsection \<open>Due times in exact arithmetic\<close>


subsection \<open>Stopping\<close>

text \<open>A run of the loop that returns leaves \<open>playing\<close> and the timer as they were.\<close>

lemma scheduler_loop_keeps:
  assumes "scheduler_loop now s calls = Some r"
  shows "playing (fst r) = playing s \<and> lookaheadTimer (fst r) = lookaheadTimer s"
proof (rule scheduler_loop.raw_induct
    [where P = "\<lambda>now s calls r. playing (fst r) = playing s
                  \<and> lookaheadTimer (fst r) = lookaheadTimer s", OF _ assms])
  fix loop :: "rat \<Rightarrow> 'a rhythm \<Rightarrow> 'a call list \<Rightarrow> ('a rhythm \<times> 'a call list) option"
    and now s calls r
  assume IH: "\<And>n s c y. loop n s c = Some y \<Longrightarrow>
                playing (fst y) = playing s \<and> lookaheadTimer (fst y) = lookaheadTimer s"
    and eq: "(if nextStepTime s < now + SCHEDULE_AHEAD
              then loop now (fst (loop_body s)) (calls @ [snd (loop_body s)])
              else Some (s, calls)) = Some r"
  show "playing (fst r) = playing s \<and> lookaheadTimer (fst r) = lookaheadTimer s"
  proof (cases "nextStepTime s < now + SCHEDULE_AHEAD")
    case True
    with eq have "loop now (fst (loop_body s)) (calls @ [snd (loop_body s)]) = Some r" by simp
    from IH [OF this] show ?thesis by simp
  next
    case False
    with eq show ?thesis by auto
  qed
qed

text \<open>
  In every state the module can reach, the timer is armed exactly while playing, and a
  stopped sequencer stands at step 0.
\<close>

lemma reachable_timer:
  "reachable s \<Longrightarrow> (lookaheadTimer s \<longleftrightarrow> playing s) \<and> (\<not> playing s \<longrightarrow> currentStep s = 0)"
proof (induction rule: reachable.induct)
  case (r_tick s ctx s' calls)
  show ?case
  proof (cases ctx)
    case None
    with r_tick show ?thesis by (simp add: scheduler_def)
  next
    case (Some now)
    with r_tick.hyps have "scheduler_loop now s [] = Some (s', calls)"
      by (simp add: scheduler_def)
    from scheduler_loop_keeps [OF this] r_tick show ?thesis by simp
  qed
qed (auto simp: rhythm_init_def start_def stop_def toggle_def Let_def setTempo_def setVolume_def
       setPattern_def toggleMetronome_def startCountIn_def updateBeatIndicator_def
       run_countInCallback_def split: option.splits)

text \<open>
  The tempo of a reachable state lies between 60 and 200, its pattern is in the
  catalog and its step index is below the step count: what the statements about the
  scheduler assume of their starting state holds in every state the module reaches.
\<close>

lemma scheduler_loop_frame:
  assumes "scheduler_loop now s calls = Some r" and "currentStep s < getPatternSteps s"
  shows "tempo (fst r) = tempo s \<and> currentPattern (fst r) = currentPattern s
           \<and> currentStep (fst r) < getPatternSteps (fst r)"
proof -
  have "currentStep s < getPatternSteps s \<longrightarrow>
          tempo (fst r) = tempo s \<and> currentPattern (fst r) = currentPattern s
           \<and> currentStep (fst r) < getPatternSteps (fst r)"
  proof (rule scheduler_loop.raw_induct
      [where P = "\<lambda>now s calls r. currentStep s < getPatternSteps s \<longrightarrow>
                    tempo (fst r) = tempo s \<and> currentPattern (fst r) = currentPattern s
                    \<and> currentStep (fst r) < getPatternSteps (fst r)", OF _ assms(1)])
    fix loop :: "rat \<Rightarrow> 'a rhythm \<Rightarrow> 'a call list \<Rightarrow> ('a rhythm \<times> 'a call list) option"
      and now s calls r
    assume IH: "\<And>n s c y. loop n s c = Some y \<Longrightarrow>
                  currentStep s < getPatternSteps s \<longrightarrow>
                    tempo (fst y) = tempo s \<and> currentPattern (fst y) = currentPattern s
                    \<and> currentStep (fst y) < getPatternSteps (fst y)"
      and eq: "(if nextStepTime s < now + SCHEDULE_AHEAD
                then loop now (fst (loop_body s)) (calls @ [snd (loop_body s)])
                else Some (s, calls)) = Some r"
    show "currentStep s < getPatternSteps s \<longrightarrow>
            tempo (fst r) = tempo s \<and> currentPattern (fst r) = currentPattern s
            \<and> currentStep (fst r) < getPatternSteps (fst r)"
    proof (cases "nextStepTime s < now + SCHEDULE_AHEAD")
      case True
      with eq have "loop now (fst (loop_body s)) (calls @ [snd (loop_body s)]) = Some r" by simp
      from IH [OF this] getPatternSteps_pos [of s] show ?thesis by simp
    next
      case False
      with eq show ?thesis by auto
    qed
  qed
  with assms(2) show ?thesis by simp
qed

lemma reachable_wf:
  "reachable s \<Longrightarrow>
     60 \<le> tempo s \<and> tempo s \<le> 200 \<and> lookup_pattern (currentPattern s) \<noteq> None
     \<and> currentStep s < getPatternSteps s"
proof (induction rule: reachable.induct)
  case r_init
  show ?case
    by (simp add: rhythm_init_def getPatternSteps_def lookup_pattern_def PATTERNS_def)
next
  case (r_tick s ctx s' calls)
  show ?case
  proof (cases ctx)
    case None
    with r_tick show ?thesis by (simp add: scheduler_def)
  next
    case (Some now)
    with r_tick.hyps have "scheduler_loop now s [] = Some (s', calls)"
      by (simp add: scheduler_def)
    from scheduler_loop_frame [OF this] r_tick.IH show ?thesis by simp
  qed
next
  case (r_setPattern s name)
  then show ?case
    using getPatternSteps_pos [of "s\<lparr>currentPattern := name\<rparr>"] reachable_timer [of s]
    by (auto simp: setPattern_def Let_def getPatternSteps_def split: option.splits)
next
  case (r_start s ctx)
  then show ?case
    using getPatternSteps_pos [of s]
    by (auto simp: start_def getPatternSteps_def split: option.splits)
next
  case (r_stop s)
  then show ?case
    using getPatternSteps_pos [of s]
    by (auto simp: stop_def getPatternSteps_def split: option.splits)
next
  case (r_toggle s ctx)
  then show ?case
    using getPatternSteps_pos [of s]
    by (auto simp: toggle_def start_def stop_def Let_def getPatternSteps_def split: option.splits)
next
  case (r_startCountIn s ctx cb)
  then show ?case
    using getPatternSteps_pos [of s]
    by (auto simp: startCountIn_def start_def Let_def getPatternSteps_def split: option.splits)
qed (auto simp: setTempo_def setVolume_def toggleMetronome_def updateBeatIndicator_def
       run_countInCallback_def Let_def getPatternSteps_def)

text \<open>
  Claim C8. \<^verbatim>\<open>stop\<close> is idempotent: a second \<^verbatim>\<open>stop\<close> changes nothing, and
  \<^verbatim>\<open>stop\<close> on a stopped sequencer is the identity. Stopping a playing sequencer puts
  the step index at 0 and clears the highlighted beat dot; in every reachable state,
  playing or not, the step index after \<^verbatim>\<open>stop\<close> is 0 and the timer is off.
\<close>

theorem stop_idempotent:
  "stop (stop s) = stop s
   \<and> (\<not> playing s \<longrightarrow> stop s = s)
   \<and> (playing s \<longrightarrow> currentStep (stop s) = 0 \<and> beatCurrent (stop s) = - 1)
   \<and> (reachable s \<longrightarrow>
        \<not> playing (stop s) \<and> \<not> lookaheadTimer (stop s) \<and> currentStep (stop s) = 0)"
proof -
  have "reachable s \<Longrightarrow>
          \<not> playing (stop s) \<and> \<not> lookaheadTimer (stop s) \<and> currentStep (stop s) = 0"
    using reachable_timer [of s] by (auto simp: stop_def)
  then show ?thesis by (auto simp: stop_def)
qed

theorem stop_idempotent_witness:
  "reachable (start (Some 0) (rhythm_init :: unit rhythm))
   \<and> playing (start (Some 0) (rhythm_init :: unit rhythm))
   \<and> currentStep (stop (start (Some 0) (rhythm_init :: unit rhythm))) = 0
   \<and> \<not> playing (stop (start (Some 0) (rhythm_init :: unit rhythm)))
   \<and> \<not> playing (rhythm_init :: unit rhythm)
   \<and> stop (rhythm_init :: unit rhythm) = rhythm_init"
proof -
  have r: "reachable (start (Some 0) (rhythm_init :: unit rhythm))"
    by (intro r_start r_init)
  have p: "playing (start (Some 0) (rhythm_init :: unit rhythm))"
    by (simp add: start_def rhythm_init_def)
  have i: "\<not> playing (rhythm_init :: unit rhythm)" by (simp add: rhythm_init_def)
  from stop_idempotent [of "start (Some 0) (rhythm_init :: unit rhythm)"] r p
    stop_idempotent [of "rhythm_init :: unit rhythm"] i
  show ?thesis by simp
qed

subsection \<open>Count-in\<close>

lemma fired_append [simp]: "fired (xs @ ys) = fired xs @ fired ys"
  by (induction xs rule: fired.induct) simp_all

lemma fired_voice_actions [simp]: "fired (voice_actions p step t vol) = []"
  by (simp add: voice_actions_def)

lemma fired_midi_actions [simp]: "fired (midi_actions p step vol) = []"
  by (simp add: midi_actions_def)






lemma no_zero_simps [simp]:
  "no_zero []"
  "no_zero (cs @ [c]) \<longleftrightarrow> no_zero cs \<and> fst c \<noteq> 0"
  by (auto simp: no_zero_def)










section \<open>The WAV encoder\<close>

subsection \<open>Bytes and numbers\<close>

lemma unat_toUint8: "unat (toUint8 v) = nat (v mod 256)"
  by (simp add: toUint8_def unat_eq_nat_uint uint_word_of_int take_bit_eq_mod)

lemma int_split16: "nat (v mod 256) + 256 * nat (v div 256 mod 256) = nat (v mod 65536)"
proof -
  have "v mod (256 * 256) = 256 * (v div 256 mod 256) + v mod 256"
    by (rule zmod_zmult2_eq) simp
  then have "v mod 65536 = 256 * (v div 256 mod 256) + v mod 256" by simp
  moreover have "0 \<le> v mod 256" "0 \<le> v div 256 mod 256" by simp_all
  ultimately show ?thesis by (simp add: nat_add_distrib nat_mult_distrib)
qed

lemma int_split32:
  "nat (v mod 256) + 256 * nat (v div 256 mod 256) + 65536 * nat (v div 65536 mod 256)
     + 16777216 * nat (v div 16777216 mod 256) = nat (v mod 4294967296)"
proof -
  have a: "v mod (65536 * 65536) = 65536 * (v div 65536 mod 65536) + v mod 65536"
    by (rule zmod_zmult2_eq) simp
  have b: "nat (v div 65536 mod 256) + 256 * nat (v div 65536 div 256 mod 256)
             = nat (v div 65536 mod 65536)"
    by (rule int_split16)
  have c: "v div 65536 div 256 = v div 16777216"
    by (simp add: zdiv_zmult2_eq [symmetric])
  have nn: "0 \<le> v div 65536 mod 65536" "0 \<le> v mod 65536" by simp_all
  from a have "nat (v mod 4294967296)
                 = 65536 * nat (v div 65536 mod 65536) + nat (v mod 65536)"
    using nn by (simp add: nat_add_distrib nat_mult_distrib)
  with b c int_split16 [of v] show ?thesis by simp
qed

lemma int_split32':
  "nat (v mod 65536) + 65536 * nat (v div 65536 mod 256)
     + 16777216 * nat (v div 16777216 mod 256) = nat (v mod 4294967296)"
  using int_split32 [of v] by (simp add: int_split16)

lemma toUint8_numeral [simp]: "toUint8 (numeral n) = numeral n" "toUint8 0 = 0" "toUint8 1 = 1"
  by (simp_all add: toUint8_def)

subsection \<open>The sample loop and the interleaving\<close>

lemma length_enc16 [simp]: "length (enc16 x) = 2"
  by (simp add: enc16_def Let_def)

lemma length_concat_enc16 [simp]: "length (concat (map enc16 xs)) = 2 * length xs"
  by (induction xs) simp_all

lemma take_update2:
  assumes "off + 2 \<le> length view"
  shows "take (off + 2) (view[off := a, off + 1 := b]) = take off view @ [a, b]"
proof (rule nth_equalityI)
  show "length (take (off + 2) (view[off := a, off + 1 := b])) = length (take off view @ [a, b])"
    using assms by simp
next
  fix i assume "i < length (take (off + 2) (view[off := a, off + 1 := b]))"
  then have "i < off + 2" by simp
  then consider "i < off" | "i = off" | "i = off + 1" by linarith
  then show "take (off + 2) (view[off := a, off + 1 := b]) ! i = (take off view @ [a, b]) ! i"
    using assms by cases (simp_all add: nth_append)
qed

lemma write_samples_result:
  assumes "offset + 2 * length xs \<le> length view"
  shows "write_samples view offset xs =
           Some (take offset view @ concat (map enc16 xs) @ drop (offset + 2 * length xs) view)"
  using assms
proof (induction xs arbitrary: view offset)
  case Nil
  then show ?case by simp
next
  case (Cons x xs)
  let ?v = "toInteger (scale_sample (clamp_sample x))"
  let ?view = "view[offset := toUint8 ?v, offset + 1 := toUint8 (?v div 256)]"
  from Cons.prems have fit: "offset + 2 \<le> length view" by simp
  then have w: "setInt16 view offset (scale_sample (clamp_sample x)) = Some ?view"
    by (simp add: setInt16_def setUint16_def)
  have "offset + 2 + 2 * length xs \<le> length ?view" using Cons.prems by simp
  from Cons.IH [OF this]
  have "write_samples ?view (offset + 2) xs =
          Some (take (offset + 2) ?view @ concat (map enc16 xs)
                  @ drop (offset + 2 + 2 * length xs) ?view)" .
  moreover have "take (offset + 2) ?view = take offset view @ enc16 x"
    using take_update2 [OF fit] by (simp add: enc16_def Let_def)
  moreover have "drop (offset + 2 + 2 * length xs) ?view = drop (offset + 2 * length (x # xs)) view"
    by (simp add: add.commute add.left_commute)
  ultimately show ?case using w by simp
qed

lemma concat_enc16_nth:
  assumes "j < length xs"
  shows "concat (map enc16 xs) ! (2 * j) = toUint8 (toInteger (scale_sample (clamp_sample (xs ! j))))"
    and "concat (map enc16 xs) ! (2 * j + 1)
           = toUint8 (toInteger (scale_sample (clamp_sample (xs ! j))) div 256)"
  using assms
proof (induction xs arbitrary: j)
  case Nil
  { case 1 then show ?case by simp }
  { case 2 then show ?case by simp }
next
  case (Cons x xs)
  { case 1
    then show ?case
      using Cons.IH(1) [of "j - 1"]
      by (cases j) (simp_all add: enc16_def Let_def nth_append) }
  { case 2
    then show ?case
      using Cons.IH(2) [of "j - 1"]
      by (cases j) (simp_all add: enc16_def Let_def nth_append) }
qed

lemma fold_interleave_step:
  assumes "n \<le> length left" "length acc = length left + length right"
  shows "length (fold (interleave_step left right) [0 ..< n] acc) = length acc
       \<and> (\<forall>j<length acc.
             fold (interleave_step left right) [0 ..< n] acc ! j =
               (if j < 2 * n then (if even j then left ! (j div 2) else sample_at right (j div 2))
                else acc ! j))"
  using assms(1)
proof (induction n)
  case 0
  then show ?case by simp
next
  case (Suc n)
  then have IH: "length (fold (interleave_step left right) [0 ..< n] acc) = length acc"
    "\<And>j. j < length acc \<Longrightarrow> fold (interleave_step left right) [0 ..< n] acc ! j =
               (if j < 2 * n then (if even j then left ! (j div 2) else sample_at right (j div 2))
                else acc ! j)"
    by simp_all
  show ?case
  proof (intro conjI allI impI)
    show "length (fold (interleave_step left right) [0 ..< Suc n] acc) = length acc"
      using IH(1) by (simp add: interleave_step_def)
    fix j assume j: "j < length acc"
    consider "j < 2 * n" | "j = 2 * n" | "j = 2 * n + 1" | "2 * n + 1 < j" by linarith
    then show "fold (interleave_step left right) [0 ..< Suc n] acc ! j =
               (if j < 2 * Suc n then (if even j then left ! (j div 2) else sample_at right (j div 2))
                else acc ! j)"
    proof cases
      case 1
      then show ?thesis using IH j by (simp add: interleave_step_def mult.commute)
    next
      case 2
      then show ?thesis using IH j by (simp add: interleave_step_def mult.commute)
    next
      case 3
      then show ?thesis using IH j by (simp add: interleave_step_def mult.commute)
    next
      case 4
      then show ?thesis using IH j by (simp add: interleave_step_def mult.commute)
    qed
  qed
qed

lemma interleave_equal_length:
  assumes "length right = length left"
  shows "length (interleave left right) = 2 * length left"
    and "i < length left \<Longrightarrow> interleave left right ! (2 * i) = left ! i"
    and "i < length left \<Longrightarrow> interleave left right ! (2 * i + 1) = right ! i"
proof -
  let ?acc = "replicate (length left + length right) (Fin 0)"
  have *: "length (fold (interleave_step left right) [0 ..< length left] ?acc) = length ?acc
       \<and> (\<forall>j<length ?acc.
             fold (interleave_step left right) [0 ..< length left] ?acc ! j =
               (if j < 2 * length left
                then (if even j then left ! (j div 2) else sample_at right (j div 2))
                else ?acc ! j))"
    by (rule fold_interleave_step) simp_all
  show "length (interleave left right) = 2 * length left"
    using * assms by (simp add: interleave_def)
  show "interleave left right ! (2 * i) = left ! i" if "i < length left"
    using * assms that by (simp add: interleave_def)
  show "interleave left right ! (2 * i + 1) = right ! i" if "i < length left"
    using * assms that by (simp add: interleave_def sample_at_def)
qed

lemma js_trunc_bounds:
  assumes "of_int lo \<le> r" "r \<le> of_int hi" "lo \<le> 0" "0 \<le> hi"
  shows "lo \<le> js_trunc r \<and> js_trunc r \<le> hi"
proof (cases "0 \<le> r")
  case True
  then have eq: "js_trunc r = \<lfloor>r\<rfloor>" by (simp add: js_trunc_def)
  from True have "0 \<le> \<lfloor>r\<rfloor>" by simp
  with assms(3) have "lo \<le> \<lfloor>r\<rfloor>" by linarith
  moreover have "\<lfloor>r\<rfloor> \<le> hi" using floor_mono [OF assms(2)] by simp
  ultimately show ?thesis by (simp only: eq)
next
  case False
  then have eq: "js_trunc r = \<lceil>r\<rceil>" by (simp add: js_trunc_def)
  from False have "\<lceil>r\<rceil> \<le> 0" by (simp add: ceiling_le_iff)
  with assms(4) have "\<lceil>r\<rceil> \<le> hi" by linarith
  moreover have "lo \<le> \<lceil>r\<rceil>" using ceiling_mono [OF assms(1)] by simp
  ultimately show ?thesis by (simp only: eq)
qed

lemma pcm_range:
  "- 32768 \<le> toInteger (scale_sample (clamp_sample x))
   \<and> toInteger (scale_sample (clamp_sample x)) \<le> 32767"
proof (cases x)
  case (Fin r)
  define c where "c = max (- 1) (min 1 r)"
  have c: "- 1 \<le> c" "c \<le> 1" by (simp_all add: c_def)
  have cl: "clamp_sample x = Fin c" using Fin by (simp add: clamp_sample_def c_def)
  show ?thesis
  proof (cases "c < 0")
    case True
    have "of_int (- 32768) \<le> c * 32768" using c(1) by simp
    moreover have "c * 32768 \<le> of_int 32767" using True by (simp add: mult_le_0_iff order.trans [of _ 0])
    ultimately have "- 32768 \<le> js_trunc (c * 32768) \<and> js_trunc (c * 32768) \<le> 32767"
      by (rule js_trunc_bounds) simp_all
    with True show ?thesis by (simp add: cl scale_sample_def)
  next
    case False
    have "of_int (- 32768) \<le> c * 32767" using False by (simp add: order.trans [of _ 0])
    moreover have "c * 32767 \<le> of_int 32767" using c(2) by simp
    ultimately have "- 32768 \<le> js_trunc (c * 32767) \<and> js_trunc (c * 32767) \<le> 32767"
      by (rule js_trunc_bounds) simp_all
    with False show ?thesis by (simp add: cl scale_sample_def)
  qed
qed (simp_all add: clamp_sample_def scale_sample_def js_trunc_def)

subsection \<open>The header\<close>

lemma write_header_result:
  "\<exists>H. write_header (replicate (44 + m) 0) chunkSize fmt chans rate byteRate blockAlign bits dlen
          = Some H
       \<and> length H = 44 + m
       \<and> ascii H 0 ''RIFF'' \<and> le32 H 4 = nat (chunkSize mod 4294967296)
       \<and> ascii H 8 ''WAVE'' \<and> ascii H 12 ''fmt '' \<and> le32 H 16 = 16
       \<and> le16 H 20 = nat (fmt mod 65536) \<and> le16 H 22 = nat (chans mod 65536)
       \<and> le32 H 24 = nat (rate mod 4294967296)
       \<and> le32 H 28 = nat (byteRate mod 4294967296)
       \<and> le16 H 32 = nat (blockAlign mod 65536)
       \<and> le16 H 34 = nat (bits mod 65536) \<and> ascii H 36 ''data''
       \<and> le32 H 40 = nat (dlen mod 4294967296)"
  apply (simp add: write_header_def setUint8_def setUint16_def setUint32_def)
  apply (simp add: ascii_def le32_def le16_def nth_list_update upt_rec unat_toUint8
           int_split16 int_split32')
  done

lemma sle16_bytes:
  assumes "- 32768 \<le> v" "v \<le> 32767" "bs ! i = toUint8 v" "bs ! (i + 1) = toUint8 (v div 256)"
  shows "sle16 bs i = v"
proof -
  have u: "int (le16 bs i) = v mod 65536"
    using assms(3,4) by (simp add: le16_def unat_toUint8 int_split16)
  show ?thesis
  proof (cases "0 \<le> v")
    case True
    with assms(2) have "v mod 65536 = v" by simp
    with u assms(2) show ?thesis by (simp add: sle16_def)
  next
    case False
    with assms(1) have "(v + 65536) mod 65536 = v + 65536"
      by (intro mod_pos_pos_trivial) simp_all
    then have "v mod 65536 = v + 65536" by simp
    with u assms(1) show ?thesis by (simp add: sle16_def)
  qed
qed

lemma audioBufferToWav_result:
  assumes "interleave_channels b = Some xs"
  shows "\<exists>H. write_header (replicate (44 + 2 * length xs) 0) (36 + int (2 * length xs)) 1
                 (int (numberOfChannels b)) (int (sampleRate b))
                 (int (sampleRate b * numberOfChannels b * 2))
                 (int (numberOfChannels b * 2)) 16 (int (2 * length xs)) = Some H
            \<and> length H = 44 + 2 * length xs
            \<and> audioBufferToWav b = Some (take 44 H @ concat (map enc16 xs))"
proof -
  let ?m = "2 * length xs"
  from write_header_result [of ?m "36 + int ?m" 1 "int (numberOfChannels b)"
      "int (sampleRate b)" "int (sampleRate b * numberOfChannels b * 2)"
      "int (numberOfChannels b * 2)" 16 "int ?m"]
  obtain H where H: "write_header (replicate (44 + ?m) 0) (36 + int ?m) 1
                 (int (numberOfChannels b)) (int (sampleRate b))
                 (int (sampleRate b * numberOfChannels b * 2))
                 (int (numberOfChannels b * 2)) 16 (int ?m) = Some H"
    and len: "length H = 44 + ?m"
    by blast
  have "write_samples H 44 xs = Some (take 44 H @ concat (map enc16 xs) @ drop (44 + ?m) H)"
    by (rule write_samples_result) (simp add: len)
  then have "write_samples H 44 xs = Some (take 44 H @ concat (map enc16 xs))"
    by (simp add: len)
  moreover have "audioBufferToWav b = write_samples H 44 xs"
    using assms H by (simp add: audioBufferToWav_def Let_def mult.commute)
  ultimately show ?thesis using H len by auto
qed

lemma prefix_decoders:
  assumes "44 \<le> length H"
  shows "i + 4 \<le> 44 \<Longrightarrow> le32 (take 44 H @ ys) i = le32 H i"
    and "i + 2 \<le> 44 \<Longrightarrow> le16 (take 44 H @ ys) i = le16 H i"
    and "i + length str \<le> 44 \<Longrightarrow> ascii (take 44 H @ ys) i str = ascii H i str"
proof -
  have nth: "(take 44 H @ ys) ! k = H ! k" if "k < 44" for k
    using that assms by (simp add: nth_append)
  show "le32 (take 44 H @ ys) i = le32 H i" if "i + 4 \<le> 44"
    using that by (simp add: le32_def nth)
  show "le16 (take 44 H @ ys) i = le16 H i" if "i + 2 \<le> 44"
    using that by (simp add: le16_def nth)
  show "ascii (take 44 H @ ys) i str = ascii H i str" if "i + length str \<le> 44"
  proof -
    have "map (\<lambda>k. (take 44 H @ ys) ! (i + k)) [0 ..< length str]
            = map (\<lambda>k. H ! (i + k)) [0 ..< length str]"
      using that by (intro map_cong refl nth) simp
    then show ?thesis by (simp only: ascii_def)
  qed
qed

lemma sample_decoded:
  assumes "44 \<le> length H" "length (take 44 H) = 44" "j < length xs"
  shows "sle16 (take 44 H @ concat (map enc16 xs)) (44 + 2 * j)
           = toInteger (scale_sample (clamp_sample (xs ! j)))"
proof (rule sle16_bytes)
  show "- 32768 \<le> toInteger (scale_sample (clamp_sample (xs ! j)))"
    and "toInteger (scale_sample (clamp_sample (xs ! j))) \<le> 32767"
    using pcm_range [of "xs ! j"] by simp_all
  show "(take 44 H @ concat (map enc16 xs)) ! (44 + 2 * j)
          = toUint8 (toInteger (scale_sample (clamp_sample (xs ! j))))"
    using assms concat_enc16_nth(1) [of j xs] by (simp add: nth_append)
  show "(take 44 H @ concat (map enc16 xs)) ! (44 + 2 * j + 1)
          = toUint8 (toInteger (scale_sample (clamp_sample (xs ! j))) div 256)"
    using assms concat_enc16_nth(2) [of j xs] by (simp add: nth_append)
qed

lemma interleave_channels_wf:
  assumes "numberOfChannels b = length (channelData b)" "channelData b \<noteq> []"
  shows "\<exists>xs. interleave_channels b = Some xs"
  using assms
  by (cases "channelData b") (auto simp: interleave_channels_def getChannelData_def)

lemma clamp_sample_range:
  "clamp_sample x = NaN \<or> (\<exists>c. clamp_sample x = Fin c \<and> - 1 \<le> c \<and> c \<le> 1)"
  by (cases x) (simp_all add: clamp_sample_def)


lemma interleave_channels_frames:
  assumes nc: "numberOfChannels b = C" and C: "C = 1 \<or> C = 2"
      and chans: "length (channelData b) = C"
      and frames: "\<forall>ch\<in>set (channelData b). length ch = K"
  shows "\<exists>xs. interleave_channels b = Some xs \<and> length xs = K * C
           \<and> (\<forall>i<K. \<forall>c<C. xs ! (i * C + c) = channelData b ! c ! i)"
proof -
  from C show ?thesis
  proof
    assume C1: "C = 1"
    with chans obtain ch where cd: "channelData b = [ch]"
      by (cases "channelData b") simp_all
    with frames have "length ch = K" by simp
    with C1 nc cd show ?thesis
      by (simp add: interleave_channels_def getChannelData_def)
  next
    assume C2: "C = 2"
    with chans obtain l r where cd: "channelData b = [l, r]"
      by (cases "channelData b"; cases "tl (channelData b)") auto
    with frames have len: "length l = K" "length r = K" by simp_all
    then have eq: "length r = length l" by simp
    have xs: "interleave_channels b = Some (interleave l r)"
      using C2 nc cd by (simp add: interleave_channels_def getChannelData_def)
    have "interleave l r ! (i * 2 + c) = [l, r] ! c ! i" if "i < K" "c < 2" for i c
    proof (cases c)
      case 0
      then show ?thesis using interleave_equal_length(2) [OF eq, of i] that len
        by (simp add: mult.commute)
    next
      case (Suc c')
      with that have "c = 1" by simp
      then show ?thesis using interleave_equal_length(3) [OF eq, of i] that len
        by (simp add: mult.commute)
    qed
    then show ?thesis
      using xs interleave_equal_length(1) [OF eq] len C2 cd by (simp add: mult.commute)
  qed
qed

lemma nat_int_mod_small: "n < m \<Longrightarrow> nat (int n mod int m) = n"
  by (simp add: zmod_int [symmetric])

lemma scale_in_range:
  assumes "- 1 \<le> r" "r \<le> 1"
  shows "toInteger (scale_sample (clamp_sample (Fin r)))
           = js_trunc (if r < 0 then r * 32768 else r * 32767)"
  using assms by (simp add: clamp_sample_def scale_sample_def)


text \<open>
  Claim C6. For a buffer of \<open>C\<close> channels (\<open>C\<close> 1 or 2), each of \<open>K\<close> frames, at
  sample rate \<open>R\<close>, whose sizes fit the 32-bit fields of the format, the encoder
  returns a file of exactly \<open>44 + K * C * 2\<close> bytes: \<open>RIFF\<close>, chunk size
  \<open>36 + dataLength\<close>, \<open>WAVE\<close>, \<open>fmt\<close>, block size 16, PCM tag 1, \<open>C\<close> channels,
  rate \<open>R\<close>, byte rate \<open>R * C * 2\<close>, block align \<open>C * 2\<close>, 16 bits per sample,
  \<open>data\<close> and data size \<open>K * C * 2\<close>. Frame \<open>i\<close> of channel \<open>c\<close> is the signed
  little-endian 16-bit number at offset \<open>44 + 2 * (i * C + c)\<close> (interleaved); a
  sample \<open>r\<close> in \<open>[-1, 1]\<close> is stored as \<open>r * 32768\<close> when negative and
  \<open>r * 32767\<close> otherwise, truncated towards zero.
\<close>

theorem wav_exact:
  assumes nc: "numberOfChannels b = C" and C: "C = 1 \<or> C = 2"
      and chans: "length (channelData b) = C"
      and frames: "\<forall>ch\<in>set (channelData b). length ch = K"
      and size: "44 + K * C * 2 < 4294967296" and rate: "sampleRate b * C * 2 < 4294967296"
  shows "\<exists>out. audioBufferToWav b = Some out
           \<and> length out = 44 + K * C * 2
           \<and> ascii out 0 ''RIFF'' \<and> le32 out 4 = 36 + K * C * 2
           \<and> ascii out 8 ''WAVE'' \<and> ascii out 12 ''fmt '' \<and> le32 out 16 = 16
           \<and> le16 out 20 = 1 \<and> le16 out 22 = C \<and> le32 out 24 = sampleRate b
           \<and> le32 out 28 = sampleRate b * C * 2 \<and> le16 out 32 = C * 2
           \<and> le16 out 34 = 16 \<and> ascii out 36 ''data'' \<and> le32 out 40 = K * C * 2
           \<and> (\<forall>i<K. \<forall>c<C. \<forall>r. channelData b ! c ! i = Fin r \<and> - 1 \<le> r \<and> r \<le> 1 \<longrightarrow>
                 sle16 out (44 + 2 * (i * C + c))
                   = js_trunc (if r < 0 then r * 32768 else r * 32767))"
proof -
  from interleave_channels_frames [OF nc C chans frames] obtain xs where
    xs: "interleave_channels b = Some xs" and lxs: "length xs = K * C"
    and at: "\<And>i c. i < K \<Longrightarrow> c < C \<Longrightarrow> xs ! (i * C + c) = channelData b ! c ! i"
    by blast
  let ?m = "2 * length xs"
  let ?out = "\<lambda>H. take 44 H @ concat (map enc16 xs)"
  from write_header_result [of ?m "36 + int ?m" 1 "int (numberOfChannels b)"
      "int (sampleRate b)" "int (sampleRate b * numberOfChannels b * 2)"
      "int (numberOfChannels b * 2)" 16 "int ?m"]
  obtain H where
    H: "write_header (replicate (44 + ?m) 0) (36 + int ?m) 1
                 (int (numberOfChannels b)) (int (sampleRate b))
                 (int (sampleRate b * numberOfChannels b * 2))
                 (int (numberOfChannels b * 2)) 16 (int ?m) = Some H"
    and len: "length H = 44 + ?m"
    and hdr: "ascii H 0 ''RIFF''" "le32 H 4 = nat ((36 + int ?m) mod 4294967296)"
    "ascii H 8 ''WAVE''" "ascii H 12 ''fmt ''" "le32 H 16 = 16"
    "le16 H 20 = nat (1 mod 65536)" "le16 H 22 = nat (int (numberOfChannels b) mod 65536)"
    "le32 H 24 = nat (int (sampleRate b) mod 4294967296)"
    "le32 H 28 = nat (int (sampleRate b * numberOfChannels b * 2) mod 4294967296)"
    "le16 H 32 = nat (int (numberOfChannels b * 2) mod 65536)"
    "le16 H 34 = nat (16 mod 65536)" "ascii H 36 ''data''"
    "le32 H 40 = nat (int ?m mod 4294967296)"
    by (elim exE conjE)
  have out: "audioBufferToWav b = Some (?out H)"
    using audioBufferToWav_result [OF xs] H by auto
  have H44: "44 \<le> length H" "length (take 44 H) = 44" using len by simp_all
  note pre = prefix_decoders [OF H44(1), where ys = "concat (map enc16 xs)"]
  have m: "?m = K * C * 2" using lxs by simp
  have small: "36 + ?m < 4294967296" "?m < 4294967296" using size m by simp_all
  have C': "C < 65536" "C * 2 < 65536" using C by auto
  have R: "sampleRate b < 4294967296"
    using rate C by auto
  have f4: "nat ((36 + int ?m) mod 4294967296) = 36 + ?m"
    using nat_int_mod_small [OF small(1)] by simp
  have f40: "nat (int ?m mod 4294967296) = ?m"
    using nat_int_mod_small [OF small(2)] by simp
  have f22: "nat (int C mod 65536) = C" using nat_int_mod_small [OF C'(1)] by simp
  have f32: "nat (int (C * 2) mod 65536) = C * 2" using nat_int_mod_small [OF C'(2)] by simp
  have f24: "nat (int (sampleRate b) mod 4294967296) = sampleRate b"
    using nat_int_mod_small [OF R] by simp
  have f28: "nat (int (sampleRate b * C * 2) mod 4294967296) = sampleRate b * C * 2"
    using nat_int_mod_small [OF rate] by simp
  have p32: "le32 (?out H) 4 = le32 H 4" "le32 (?out H) 16 = le32 H 16"
    "le32 (?out H) 24 = le32 H 24" "le32 (?out H) 28 = le32 H 28" "le32 (?out H) 40 = le32 H 40"
    by (rule pre(1), simp)+
  have p16: "le16 (?out H) 20 = le16 H 20" "le16 (?out H) 22 = le16 H 22"
    "le16 (?out H) 32 = le16 H 32" "le16 (?out H) 34 = le16 H 34"
    by (rule pre(2), simp)+
  have pas: "ascii (?out H) 0 ''RIFF'' = ascii H 0 ''RIFF''"
    "ascii (?out H) 8 ''WAVE'' = ascii H 8 ''WAVE''"
    "ascii (?out H) 12 ''fmt '' = ascii H 12 ''fmt ''"
    "ascii (?out H) 36 ''data'' = ascii H 36 ''data''"
    by (rule pre(3), simp)+
  have one: "nat (1 mod 65536) = 1" "nat (16 mod 65536) = 16" by simp_all
  have "length (?out H) = 44 + K * C * 2" using H44 lxs by simp
  moreover have "ascii (?out H) 0 ''RIFF''" "ascii (?out H) 8 ''WAVE''"
    "ascii (?out H) 12 ''fmt ''" "ascii (?out H) 36 ''data''"
    using hdr(1,3,4,12) by (simp_all only: pas)
  moreover have "le32 (?out H) 4 = 36 + K * C * 2"
    by (simp only: p32 hdr m f4 [unfolded m])
  moreover have "le32 (?out H) 16 = 16" by (simp only: p32 hdr)
  moreover have "le16 (?out H) 20 = 1" by (simp only: p16 hdr one)
  moreover have "le16 (?out H) 22 = C" by (simp only: p16 hdr nc f22)
  moreover have "le32 (?out H) 24 = sampleRate b" by (simp only: p32 hdr f24)
  moreover have "le32 (?out H) 28 = sampleRate b * C * 2" by (simp only: p32 hdr nc f28)
  moreover have "le16 (?out H) 32 = C * 2" by (simp only: p16 hdr nc f32)
  moreover have "le16 (?out H) 34 = 16" by (simp only: p16 hdr one)
  moreover have "le32 (?out H) 40 = K * C * 2" by (simp only: p32 hdr m f40 [unfolded m])
  moreover have "sle16 (?out H) (44 + 2 * (i * C + c))
                   = js_trunc (if r < 0 then r * 32768 else r * 32767)"
    if "i < K" "c < C" "channelData b ! c ! i = Fin r" "- 1 \<le> r" "r \<le> 1" for i c r
  proof -
    have "i * C + c < (i + 1) * C" using that(2) by simp
    also have "\<dots> \<le> K * C" using that(1) by (intro mult_le_mono1) simp
    finally have j: "i * C + c < length xs" using lxs by simp
    from sample_decoded [OF H44 j] at [OF that(1,2)] that(3) scale_in_range [OF that(4,5)]
    show ?thesis by simp
  qed
  ultimately show ?thesis using out by (intro exI [of _ "?out H"] conjI allI impI) auto
qed

theorem wav_exact_witness:
  "numberOfChannels wav_example = 2 \<and> length (channelData wav_example) = 2
   \<and> map length (channelData wav_example) = [2, 2]
   \<and> (\<exists>out. audioBufferToWav wav_example = Some out
         \<and> length out = 52 \<and> le32 out 4 = 44 \<and> le16 out 22 = 2 \<and> le32 out 24 = 48000
         \<and> le32 out 28 = 192000 \<and> le16 out 32 = 4 \<and> le32 out 40 = 8
         \<and> sle16 out 44 = 16383 \<and> sle16 out 46 = 0
         \<and> sle16 out 48 = - 32768 \<and> sle16 out 50 = 32767)"
proof -
  have h: "numberOfChannels wav_example = 2" "(2::nat) = 1 \<or> (2::nat) = 2"
    "length (channelData wav_example) = 2"
    "\<forall>ch\<in>set (channelData wav_example). length ch = 2"
    "44 + 2 * 2 * 2 < (4294967296::nat)" "sampleRate wav_example * 2 * 2 < 4294967296"
    by (simp_all add: wav_example_def)
  from wav_exact [OF h] obtain out where
    out: "audioBufferToWav wav_example = Some out"
    and hdr: "length out = 44 + 2 * 2 * 2" "le32 out 4 = 36 + 2 * 2 * 2" "le16 out 22 = 2"
      "le32 out 24 = sampleRate wav_example" "le32 out 28 = sampleRate wav_example * 2 * 2"
      "le16 out 32 = 2 * 2" "le32 out 40 = 2 * 2 * 2"
    and smp: "\<And>i c r. i < 2 \<Longrightarrow> c < 2 \<Longrightarrow> channelData wav_example ! c ! i = Fin r
                \<Longrightarrow> - 1 \<le> r \<Longrightarrow> r \<le> 1
                \<Longrightarrow> sle16 out (44 + 2 * (i * 2 + c))
                      = js_trunc (if r < 0 then r * 32768 else r * 32767)"
    by blast
  have tr: "js_trunc (1 / 2 * 32767) = 16383" "js_trunc (0 * 32767) = 0"
    "js_trunc (- 1 * 32768) = - 32768" "js_trunc (1 * 32767) = 32767"
    by (simp_all add: js_trunc_def floor_unique)
  have "sle16 out 44 = 16383"
    using smp [of 0 0 "1 / 2"] tr(1) by (simp add: wav_example_def)
  moreover have "sle16 out 46 = 0"
    using smp [of 0 1 0] tr(2) by (simp add: wav_example_def)
  moreover have "sle16 out 48 = - 32768"
    using smp [of 1 0 "- 1"] tr(3) by (simp add: wav_example_def)
  moreover have "sle16 out 50 = 32767"
    using smp [of 1 1 1] tr(4) by (simp add: wav_example_def)
  moreover have "map length (channelData wav_example) = [2, 2]"
    by (simp add: wav_example_def)
  ultimately show ?thesis
    using h(1,3) out hdr by (simp add: wav_example_def)
qed

text \<open>
  Claim C10. For every buffer whose channel count matches its channel arrays,
  whatever the samples (beyond \<open>[-1, 1]\<close>, infinite or \<^verbatim>\<open>NaN\<close>), the encoder
  returns a file of \<open>44 + 2 * n\<close> bytes for the \<open>n\<close> interleaved samples; each sample is
  clamped to \<open>[-1, 1]\<close> (or stays \<^verbatim>\<open>NaN\<close>) before it is scaled, the integer handed to
  \<^verbatim>\<open>setInt16\<close> lies between -32768 and 32767, and the two bytes written read back
  as exactly that integer: nothing wraps.
\<close>

theorem wav_clamps:
  assumes "numberOfChannels b = length (channelData b)" and "channelData b \<noteq> []"
  shows "\<exists>xs out. interleave_channels b = Some xs \<and> audioBufferToWav b = Some out
           \<and> length out = 44 + 2 * length xs
           \<and> (\<forall>j<length xs.
                 (clamp_sample (xs ! j) = NaN
                    \<or> (\<exists>c. clamp_sample (xs ! j) = Fin c \<and> - 1 \<le> c \<and> c \<le> 1))
               \<and> - 32768 \<le> toInteger (scale_sample (clamp_sample (xs ! j)))
               \<and> toInteger (scale_sample (clamp_sample (xs ! j))) \<le> 32767
               \<and> sle16 out (44 + 2 * j) = toInteger (scale_sample (clamp_sample (xs ! j))))"
proof -
  from interleave_channels_wf [OF assms] obtain xs where xs: "interleave_channels b = Some xs" ..
  from audioBufferToWav_result [OF xs] obtain H where
    len: "length H = 44 + 2 * length xs"
    and out: "audioBufferToWav b = Some (take 44 H @ concat (map enc16 xs))"
    by blast
  have H44: "44 \<le> length H" "length (take 44 H) = 44" using len by simp_all
  have "length (take 44 H @ concat (map enc16 xs)) = 44 + 2 * length xs"
    using H44 by simp
  moreover have "sle16 (take 44 H @ concat (map enc16 xs)) (44 + 2 * j)
           = toInteger (scale_sample (clamp_sample (xs ! j)))" if "j < length xs" for j
    using H44 that by (rule sample_decoded)
  ultimately show ?thesis
    using xs out pcm_range clamp_sample_range by blast
qed

theorem wav_clamps_witness:
  "numberOfChannels loud_example = length (channelData loud_example)
   \<and> channelData loud_example \<noteq> []
   \<and> (\<exists>out. audioBufferToWav loud_example = Some out \<and> length out = 54
         \<and> sle16 out 44 = 32767 \<and> sle16 out 46 = - 32768 \<and> sle16 out 48 = 0
         \<and> sle16 out 50 = 32767 \<and> sle16 out 52 = - 32768)"
proof -
  have h: "numberOfChannels loud_example = length (channelData loud_example)"
    "channelData loud_example \<noteq> []"
    by (simp_all add: loud_example_def)
  have xs0: "interleave_channels loud_example = Some [Fin 5, Fin (- 7 / 2), NaN, PosInf, NegInf]"
    by (simp add: loud_example_def interleave_channels_def getChannelData_def)
  from wav_clamps [OF h] xs0 obtain out where
    out: "audioBufferToWav loud_example = Some out" and len: "length out = 44 + 2 * 5"
    and smp: "\<And>j. j < 5 \<Longrightarrow> sle16 out (44 + 2 * j)
                = toInteger (scale_sample (clamp_sample
                    ([Fin 5, Fin (- 7 / 2), NaN, PosInf, NegInf] ! j)))"
    by auto
  have "sle16 out 44 = 32767" using smp [of 0]
    by (simp add: clamp_sample_def scale_sample_def js_trunc_def)
  moreover have "sle16 out 46 = - 32768" using smp [of 1]
    by (simp add: clamp_sample_def scale_sample_def js_trunc_def)
  moreover have "sle16 out 48 = 0" using smp [of 2]
    by (simp add: clamp_sample_def scale_sample_def js_trunc_def)
  moreover have "sle16 out 50 = 32767" using smp [of 3]
    by (simp add: clamp_sample_def scale_sample_def js_trunc_def)
  moreover have "sle16 out 52 = - 32768" using smp [of 4]
    by (simp add: clamp_sample_def scale_sample_def js_trunc_def)
  ultimately show ?thesis using h out len by simp
qed

section \<open>The MIDI exporter\<close>

text \<open>
  The file built for the two example notes at tempo 125, where one tick is exactly one
  millisecond: header, track header with length 30, tempo 480000 microseconds, then
  delta 100, Note-On 60, delta 200 (\<open>129 72\<close>), Note-Off, delta 800 (\<open>134 32\<close>),
  Note-On 62, delta 200, Note-Off, end of track.
\<close>

lemma midi_example_bytes:
  "buildMidiFile 125 midi_example 1000 =
     [77, 84, 104, 100, 0, 0, 0, 6, 0, 0, 0, 1, 1, 224, 77, 84, 114, 107, 0, 0, 0, 30,
      0, 255, 81, 3, 7, 83, 0,
      100, 144, 60, 100, 129, 72, 128, 60, 0,
      134, 32, 144, 62, 100, 129, 72, 128, 62, 0,
      0, 255, 47, 0]"
  by code_simp

text \<open>
  Claim C1 fails on the code. The delta of a Note-On is computed against
  \<open>lastTick\<close>, the tick of the previous Note-On, but in the file it follows the
  previous Note-Off, which lies 200 ms later: \<open>lastTick\<close> is not advanced by the
  Note-Off delta. For the two example notes the ticks \<open>round(timeOffsetMs / msPerTick)\<close>
  are 100 and 900, while the delta times in front of the second Note-On sum to 1100.
\<close>

theorem midi_note_on_drifts:
  "map (\<lambda>e. math_round (time e / (60000 / 125 / 480))) midi_example = [100, 900]
   \<and> note_on_ticks (buildMidiFile 125 midi_example 1000) = [100, 1100]"
  by code_simp

section \<open>The exporters as functions of their input\<close>

text \<open>
  Claim C9. Buffers with equal channel count, sample rate and sample data give the same
  WAV bytes, whatever else they carry; the MIDI bytes are determined by tempo and event
  list (the duration is not even read), and \<^verbatim>\<open>exportMIDI\<close> on recorders with equal
  layers and equal tempo offers the same file. Neither export changes the recorder, the
  sequencer or the pending tasks; the only effect is the download.
\<close>

theorem exporters_deterministic:
  "(numberOfChannels b1 = numberOfChannels b2 \<and> sampleRate b1 = sampleRate b2
      \<and> channelData b1 = channelData b2
      \<longrightarrow> audioBufferToWav b1 = audioBufferToWav b2)
   \<and> buildMidiFile T evs d1 = buildMidiFile T evs d2
   \<and> (getTempo (rhy s1) = getTempo (rhy s2) \<and> layers (rcd s1) = layers (rcd s2)
      \<longrightarrow> drop (length (downloads s1)) (downloads (exportMIDI s1))
          = drop (length (downloads s2)) (downloads (exportMIDI s2)))
   \<and> rhy (exportMIDI s) = rhy s \<and> rcd (exportMIDI s) = rcd s \<and> tasks (exportMIDI s) = tasks s
   \<and> rhy (exportWAV e s) = rhy s \<and> rcd (exportWAV e s) = rcd s
   \<and> tasks (exportWAV e s) = tasks s"
  by (auto simp: audioBufferToWav_def interleave_channels_def getChannelData_def
        buildMidiFile_def exportMIDI_def exportWAV_def Let_def split: option.splits)

theorem exporters_deterministic_witness:
  "numberOfChannels wav_example
     = numberOfChannels \<lparr>numberOfChannels = 2, sampleRate = 48000,
          channelData = [[Fin (1 / 2), Fin (- 1)], [Fin 0, Fin 1]], \<dots> = True\<rparr>
   \<and> audioBufferToWav wav_example
     = audioBufferToWav \<lparr>numberOfChannels = 2, sampleRate = 48000,
          channelData = [[Fin (1 / 2), Fin (- 1)], [Fin 0, Fin 1]], \<dots> = True\<rparr>
   \<and> getTempo (rhy logged_system) = getTempo (rhy (logged_system\<lparr>downloads := [(''a'', [])]\<rparr>))
   \<and> layers (rcd logged_system) = layers (rcd (logged_system\<lparr>downloads := [(''a'', [])]\<rparr>))
   \<and> downloads (exportMIDI logged_system) \<noteq> []
   \<and> drop (length (downloads logged_system)) (downloads (exportMIDI logged_system))
       = drop 1 (downloads (exportMIDI (logged_system\<lparr>downloads := [(''a'', [])]\<rparr>)))"
proof -
  have "downloads (exportMIDI logged_system) \<noteq> []"
    by (simp add: exportMIDI_def logged_system_def midi_example_def Let_def)
  then show ?thesis
    using exporters_deterministic [of wav_example
          "\<lparr>numberOfChannels = 2, sampleRate = 48000,
            channelData = [[Fin (1 / 2), Fin (- 1)], [Fin 0, Fin 1]], \<dots> = True\<rparr>"
          _ _ _ _ logged_system "logged_system\<lparr>downloads := [(''a'', [])]\<rparr>"]
    by (simp add: wav_example_def)
qed

section \<open>The recorder\<close>

text \<open>
  Claim C4 fails on the code. \<^verbatim>\<open>stopRecording()\<close> during the count-in puts the
  recorder back to \<open>Idle\<close>, but the closure stays with the sequencer, and the recorder
  keeps no token to tell a stale closure from a fresh one. On the fresh page:
  \<^verbatim>\<open>startRecording()\<close>, \<^verbatim>\<open>stopRecording()\<close>, then the interval timer fires two
  seconds later; the scheduler reaches step 0 of the second bar and defers the closure,
  and when it runs the recorder is in state \<open>Recording\<close> with an active media
  recorder.
\<close>

theorem stale_count_in_starts_capture:
  "getState (startRecording studio system_init) = CountingIn
   \<and> getState cancelled_count_in = Idle
   \<and> map_option tasks (interval_tick 2 cancelled_count_in) = Some [CountInTimeout (False, 1)]
   \<and> map_option (\<lambda>s. getState (run_pending later s)) (interval_tick 2 cancelled_count_in)
         = Some Recording
   \<and> map_option (\<lambda>s. mediaRecorder (rcd (run_pending later s)))
         (interval_tick 2 cancelled_count_in)
         = Some (Some \<lparr>mr_stream = 1, mr_active = True, mr_onstop = OnRecordingStop\<rparr>)"
  by code_simp

text \<open>
  Which methods keep to the state machine of section 4.3: all but \<^verbatim>\<open>startOverdub\<close>,
  \<^verbatim>\<open>playLoop\<close> and \<^verbatim>\<open>stopPlayback\<close> do so from every state; \<^verbatim>\<open>playLoop\<close>
  and \<^verbatim>\<open>stopPlayback\<close>, which assign the state without looking at it, do so when
  called in \<open>Idle\<close> or \<open>Playing\<close>.
\<close>

lemma guarded_methods_total:
  assumes "call \<noteq> StartOverdub" "call \<noteq> PlayLoop" "call \<noteq> StopPlayback"
  shows "spec_total e call sys"
  using assms
  by (cases call)
     (auto simp: spec_total_def getState_def startRecording_def stopRecording_def clear_def
        stopPlayback_def logEvent_def setLoopLength_def exportWAV_def exportMIDI_def Let_def
        split: option.splits loop_arg.splits)

lemma unguarded_methods_from_idle:
  assumes "getState sys = Idle \<or> getState sys = Playing"
  shows "spec_total e PlayLoop sys" and "spec_total e StopPlayback sys"
  using assms
  by (auto simp: spec_total_def getState_def playLoop_def stopPlayback_def)

text \<open>
  Claim C3 fails on the code, in \<^verbatim>\<open>startOverdub\<close>. With one layer recorded and the
  recorder idle, \<^verbatim>\<open>startOverdub()\<close> sets the state to \<open>Overdub\<close>, starts a media
  recorder and then calls \<^verbatim>\<open>playLoop()\<close>, which overwrites the state: the call ends
  in \<open>Playing\<close>, which is neither the state before nor the \<open>Overdub\<close> of section 4.3,
  and \<^verbatim>\<open>stopRecording()\<close> no longer reaches the running capture. Without a media
  stream the state is \<open>Overdub\<close> although no capture was started (the media recorder
  is still the finished one of the base recording); \<^verbatim>\<open>startRecording\<close> checks the
  stream before it touches the state.
\<close>

theorem overdub_ends_playing:
  "getState recorded_system = Idle
   \<and> length (layers (rcd recorded_system)) = 1
   \<and> getState (startOverdub later recorded_system) = Playing
   \<and> \<not> spec_total later StartOverdub recorded_system
   \<and> mediaRecorder (rcd (startOverdub later recorded_system))
        = Some \<lparr>mr_stream = 1, mr_active = True, mr_onstop = OnOverdubStop\<rparr>
   \<and> stopRecording (startOverdub later recorded_system) = startOverdub later recorded_system
   \<and> getState (startOverdub (later\<lparr>media_stream := None\<rparr>) recorded_system) = Overdub
   \<and> mediaRecorder (rcd (startOverdub (later\<lparr>media_stream := None\<rparr>) recorded_system))
        = Some \<lparr>mr_stream = 1, mr_active = False, mr_onstop = OnRecordingStop\<rparr>"
  by code_simp

text \<open>
  Claim C7 as stated fails: \<^verbatim>\<open>clear()\<close> sets the loop duration to 0 but keeps the
  configured bar count. After \<^verbatim>\<open>setLoopLength(8)\<close> and \<^verbatim>\<open>clear()\<close> the bar count
  is still 8, and the next recording is again given the duration of 8 bars (16 s at
  tempo 120).
\<close>

theorem clear_keeps_bars:
  "loop_length_unset (setLoopLength Free system_init)
   \<and> \<not> loop_length_unset (clear (setLoopLength (Bars 8) system_init))
   \<and> loopLengthBars (rcd (clear (setLoopLength (Bars 8) system_init))) = 8
   \<and> loopDurationMs (rcd (actuallyStartRecording studio 1
          (clear (setLoopLength (Bars 8) system_init)))) = 16000"
  by code_simp

text \<open>
  Claim C7, amended. From every state \<^verbatim>\<open>clear()\<close> leaves the recorder \<open>Idle\<close> with
  no layers, an empty event log, no audio blob and loop duration 0; the configured bar
  count stays as it was; \<^verbatim>\<open>exportWAV\<close> and \<^verbatim>\<open>exportMIDI\<close> right after it change
  nothing and offer no file.
\<close>

theorem clear_resets:
  "getState (clear sys) = Idle
   \<and> layers (rcd (clear sys)) = []
   \<and> eventLog (rcd (clear sys)) = []
   \<and> audioBlob (rcd (clear sys)) = None
   \<and> loopDurationMs (rcd (clear sys)) = 0
   \<and> loopLengthBars (rcd (clear sys)) = loopLengthBars (rcd sys)
   \<and> exportWAV e (clear sys) = clear sys
   \<and> exportMIDI (clear sys) = clear sys"
  by (simp add: clear_def stopPlayback_def getState_def exportWAV_def exportMIDI_def Let_def)

end
